theory Spec2Isabelle
  imports Complex_Main "HOL-Library.Multiset"
begin

section \<open>Calendar and unit weights\<close>

text \<open>
  A date of the horizon is a \<^verbatim>\<open>datetime\<close> at midnight; it is represented by its proleptic
  Gregorian ordinal (\<^verbatim>\<open>toordinal()\<close>: day 1 is Monday 0001-01-01), so that the difference
  of two dates in days is the difference of the ordinals and \<^verbatim>\<open>weekday()\<close> is
  \<^verbatim>\<open>(toordinal() + 6) % 7\<close>, Monday being 0 and Sunday 6.
\<close>

type_synonym date = int

definition weekday :: "date \<Rightarrow> int" where
  "weekday d = (d + 6) mod 7"

text \<open>\<^verbatim>\<open>pd.date_range(start=start_date, end=end_date)\<close>: every day from start to end,
  both included; empty when the end is before the start.\<close>

definition generate_dates :: "date \<Rightarrow> date \<Rightarrow> date list" where
  "generate_dates start_d end_d = [start_d..end_d]"

definition get_units_for_day :: "date \<Rightarrow> int" where
  "get_units_for_day d =
     (if weekday d = 5 then 2
      else if weekday d = 6 then 3
      else 1)"

section \<open>The scheduler object\<close>

text \<open>
  The list of interns is a mutable Python list that the constructor stores by reference:
  the heap maps the address of a list object to its current content, and the scheduler
  holds the address. The quota dictionary is an association list with one pair per key;
  it is only read.
\<close>

type_synonym addr = nat
type_synonym heap = "addr \<Rightarrow> string list"

record intern_metric =
  total_units_used :: int
  average_spacing :: "rat option"
  num_shifts :: nat
  weekdays :: nat
  saturdays :: nat
  sundays :: nat

record scheduler =
  start_date :: date
  end_date :: date
  interns :: addr
  units_per_intern :: "(string \<times> int) list"
  min_interns_per_duty :: int
  minimum_spacing :: int
  dates :: "date list"
  schedule :: "(date \<rightharpoonup> string list) option"
  intern_metrics :: "(string \<rightharpoonup> intern_metric) option"

definition init ::
  "date \<Rightarrow> date \<Rightarrow> addr \<Rightarrow> (string \<times> int) list \<Rightarrow> int \<Rightarrow> int \<Rightarrow> scheduler" where
  "init start_d end_d interns_ref units m spacing =
     \<lparr> start_date = start_d, end_date = end_d, interns = interns_ref,
       units_per_intern = units, min_interns_per_duty = m, minimum_spacing = spacing,
       dates = generate_dates start_d end_d, schedule = None, intern_metrics = None \<rparr>"

text \<open>The exceptions \<^verbatim>\<open>solve\<close> can raise. The two \<^verbatim>\<open>ValueError\<close>s of
  \<^verbatim>\<open>verify_units\<close> carry the numbers their messages print. \<^verbatim>\<open>PulpError\<close> is what the
  library raises when a constraint is added under a name the problem already has.\<close>

datatype verify_failure =
  Insufficient_units int int
  | Insufficient_min_interns int int int

datatype error =
  ValueError verify_failure
  | KeyError
  | ZeroDivisionError
  | IndexError
  | PulpError

section \<open>Total demand and the feasibility check\<close>

fun total_units_loop :: "date list \<Rightarrow> int \<Rightarrow> int" where
  "total_units_loop [] total_units = total_units"
| "total_units_loop (d # ds) total_units =
     total_units_loop ds
       (if weekday d = 5 then total_units + 2
        else if weekday d = 6 then total_units + 3
        else total_units + 1)"

definition calculate_total_required_units :: "scheduler \<Rightarrow> int" where
  "calculate_total_required_units self = total_units_loop (dates self) 0"

definition verify_units :: "scheduler \<Rightarrow> int \<Rightarrow> error + unit" where
  "verify_units self total_required_units =
     (let total_required_units_interns = total_required_units * min_interns_per_duty self;
          total_intern_units = sum_list (map snd (units_per_intern self))
      in if total_intern_units < total_required_units
         then Inl (ValueError (Insufficient_units total_intern_units total_required_units))
         else if total_intern_units < total_required_units_interns
         then Inl (ValueError (Insufficient_min_interns total_intern_units
                     (min_interns_per_duty self) total_required_units_interns))
         else Inr ())"

section \<open>Randomness\<close>

text \<open>
  \<^verbatim>\<open>random.shuffle\<close> draws from the process-global generator. The generator is
  represented by the sequence of raw draws it is going to produce; \<^verbatim>\<open>_randbelow(n)\<close>
  consumes one draw and returns a number below \<open>n\<close> (0 once the sequence is used up).
  \<^verbatim>\<open>shuffle(x)\<close> is the standard library's loop
  \<^verbatim>\<open>for i in reversed(range(1, len(x))): j = randbelow(i + 1); x[i], x[j] = x[j], x[i]\<close>.
\<close>

type_synonym rng = "nat list"

fun randbelow :: "nat \<Rightarrow> rng \<Rightarrow> nat \<times> rng" where
  "randbelow n [] = (0, [])"
| "randbelow n (r # g) = (r mod n, g)"

fun shuffle_loop :: "nat \<Rightarrow> 'a list \<Rightarrow> rng \<Rightarrow> 'a list \<times> rng" where
  "shuffle_loop 0 x g = (x, g)"
| "shuffle_loop (Suc i) x g =
     (case randbelow (Suc i + 1) g of
        (j, g') \<Rightarrow> shuffle_loop i (x[Suc i := x ! j, j := x ! Suc i]) g')"

definition shuffle :: "'a list \<Rightarrow> rng \<Rightarrow> 'a list \<times> rng" where
  "shuffle x g = shuffle_loop (length x - 1) x g"

section \<open>Weekend pre-distribution\<close>

text \<open>\<^verbatim>\<open>weekend_distribution\<close> maps an intern to the two-element list
  \<^verbatim>\<open>[saturdays, sundays]\<close>; each key has a list of its own.\<close>

type_synonym weekend_dist = "string \<rightharpoonup> int \<times> int"

text \<open>One run of \<^verbatim>\<open>for intern in shuffled_interns\<close>, with its \<^verbatim>\<open>break\<close>.\<close>

fun distribute_pass ::
  "string list \<Rightarrow> weekend_dist \<Rightarrow> int \<Rightarrow> int \<Rightarrow> error + (weekend_dist \<times> int \<times> int)" where
  "distribute_pass [] wd remainder_saturdays remainder_sundays =
     Inr (wd, remainder_saturdays, remainder_sundays)"
| "distribute_pass (intern # rest) wd remainder_saturdays remainder_sundays =
     (if remainder_saturdays = 0 \<and> remainder_sundays = 0
      then Inr (wd, remainder_saturdays, remainder_sundays)
      else if remainder_saturdays > 0
      then (case wd intern of
              None \<Rightarrow> Inl KeyError
            | Some (sat, sun) \<Rightarrow>
                distribute_pass rest (wd(intern \<mapsto> (sat + 1, sun)))
                  (remainder_saturdays - 1) remainder_sundays)
      else if remainder_sundays > 0
      then (case wd intern of
              None \<Rightarrow> Inl KeyError
            | Some (sat, sun) \<Rightarrow>
                distribute_pass rest (wd(intern \<mapsto> (sat, sun + 1)))
                  remainder_saturdays (remainder_sundays - 1))
      else distribute_pass rest wd remainder_saturdays remainder_sundays)"

text \<open>The \<^verbatim>\<open>while remainder_saturdays > 0 and remainder_sundays > 0\<close> loop. It need not
  end (an empty list of interns changes nothing), so its result is an option.\<close>

partial_function (option) distribute_while ::
  "string list \<Rightarrow> weekend_dist \<Rightarrow> int \<Rightarrow> int \<Rightarrow> (error + (weekend_dist \<times> int \<times> int)) option" where
  "distribute_while shuffled_interns wd remainder_saturdays remainder_sundays =
     (if remainder_saturdays > 0 \<and> remainder_sundays > 0
      then (case distribute_pass shuffled_interns wd remainder_saturdays remainder_sundays of
              Inl e \<Rightarrow> Some (Inl e)
            | Inr (wd', rs', ru') \<Rightarrow> distribute_while shuffled_interns wd' rs' ru')
      else Some (Inr (wd, remainder_saturdays, remainder_sundays)))"

declare distribute_while.simps [code]

text \<open>Lines 80 to 103 of \<^verbatim>\<open>solve\<close>: the counts, the expected numbers, the remainders and
  the distribution of the remainders. \<open>ins\<close> is the content of \<^verbatim>\<open>self.interns\<close> at
  that point.\<close>

definition weekend_distribution ::
  "scheduler \<Rightarrow> string list \<Rightarrow> string list \<Rightarrow> (error + weekend_dist) option" where
  "weekend_distribution self ins shuffled_interns =
     (let num_weekdays = int (length (filter (\<lambda>d. weekday d < 5) (dates self)));
          num_saturdays = int (length (filter (\<lambda>d. weekday d = 5) (dates self)));
          num_sundays = int (length (filter (\<lambda>d. weekday d = 6) (dates self)))
      in if length ins = 0 then Some (Inl ZeroDivisionError)
         else
           let expected_saturdays = (num_saturdays * min_interns_per_duty self) div int (length ins);
               expected_sundays = (num_sundays * min_interns_per_duty self) div int (length ins);
               remainder_saturdays = (num_saturdays * min_interns_per_duty self) mod int (length ins);
               remainder_sundays = (num_sundays * min_interns_per_duty self) mod int (length ins);
               wd = map_of (map (\<lambda>intern. (intern, (expected_saturdays, expected_sundays))) ins)
           in (case distribute_while shuffled_interns wd remainder_saturdays remainder_sundays of
                 None \<Rightarrow> None
               | Some (Inl e) \<Rightarrow> Some (Inl e)
               | Some (Inr (wd', rs', ru')) \<Rightarrow> Some (Inr wd')))"

section \<open>The constraint model\<close>

text \<open>
  A decision variable is keyed by the pair (intern, date), as in \<^verbatim>\<open>intern_vars\<close>. A
  constraint is a linear expression (variables with integer coefficients), a sense and a
  right-hand side.
\<close>

type_synonym var = "string \<times> date"

datatype sense = Ge | Eq | Le

datatype lp_constraint = Constraint "(var \<times> int) list" sense int

subsection \<open>Constraint names\<close>

text \<open>
  Every constraint is added under a name, an f-string made of a fixed prefix, the
  identifier of the intern and the dates as \<^verbatim>\<open>str\<close> prints them
  (\<^verbatim>\<open>YYYY-MM-DD HH:MM:SS\<close>, always 19 characters, different for different dates). The
  library replaces each of the characters \<^verbatim>\<open>-+[] ->/\<close> of a name by an underscore, keeps
  the constraints in a dictionary keyed by the resulting name, and raises \<^verbatim>\<open>PulpError\<close>
  when a constraint is added under a name that is already a key.

  The five prefixes differ from one another before any of them ends, a replaced character
  never turns a digit into another, and the dates stand at the end of a name with a fixed
  width. So two names are the same string exactly when they have the same prefix, the same
  identifier after the replacement and the same dates. A name is represented by these
  components: one constructor per prefix, the identifier after the replacement, and the
  dates.
\<close>

datatype cname =
  Min_Interns_on date
  | Units_for string
  | Saturday_Duties_for string
  | Sunday_Duties_for string
  | Min_Spacing_Shifts string date date

definition sanitize :: "string \<Rightarrow> string" where
  "sanitize name = map (\<lambda>c. if c \<in> set ''-+[] ->/'' then CHR ''_'' else c) name"

type_synonym named_constraint = "cname \<times> lp_constraint"

text \<open>The problem: its variables and the dictionary of its constraints, in the order of
  insertion.\<close>

record lp_problem =
  variables :: "var list"
  constraints :: "named_constraint list"

text \<open>\<^verbatim>\<open>prob += constraint, name\<close> on the dictionary of constraints.\<close>

definition add_constraint ::
  "named_constraint list \<Rightarrow> named_constraint \<Rightarrow> error + named_constraint list" where
  "add_constraint cs nc =
     (if fst nc \<in> fst ` set cs then Inl PulpError else Inr (cs @ [nc]))"

text \<open>A loop that adds a list of named constraints one after the other.\<close>

fun add_constraints ::
  "named_constraint list \<Rightarrow> named_constraint list \<Rightarrow> error + named_constraint list" where
  "add_constraints cs [] = Inr cs"
| "add_constraints cs (nc # rest) =
     (case add_constraint cs nc of
        Inl e \<Rightarrow> Inl e
      | Inr cs' \<Rightarrow> add_constraints cs' rest)"

subsection \<open>The four families of constraints\<close>

text \<open>Line 66: one coverage constraint per date, named \<^verbatim>\<open>Min_Interns_on_{d}\<close>.\<close>

definition coverage_constraints ::
  "string list \<Rightarrow> date list \<Rightarrow> int \<Rightarrow> named_constraint list" where
  "coverage_constraints ins ds m =
     map (\<lambda>d. (Min_Interns_on d, Constraint (map (\<lambda>i. ((i, d), 1)) ins) Ge m)) ds"

text \<open>Lines 69 to 72: one quota constraint per intern, named \<^verbatim>\<open>Units_for_{i}\<close>. The quota
  is looked up first, then the constraint is added to the dictionary \<open>cs\<close>.\<close>

fun quota_constraints ::
  "(string \<times> int) list \<Rightarrow> date list \<Rightarrow> string list \<Rightarrow> named_constraint list
   \<Rightarrow> error + named_constraint list" where
  "quota_constraints units ds [] cs = Inr cs"
| "quota_constraints units ds (i # rest) cs =
     (case map_of units i of
        None \<Rightarrow> Inl KeyError
      | Some q \<Rightarrow>
          (case add_constraint cs
                  (Units_for (sanitize i),
                   Constraint (map (\<lambda>d. ((i, d), get_units_for_day d)) ds) Eq q) of
             Inl e \<Rightarrow> Inl e
           | Inr cs' \<Rightarrow> quota_constraints units ds rest cs'))"

text \<open>Lines 105 to 110: two weekend constraints per intern, named
  \<^verbatim>\<open>Saturday_Duties_for_{i}\<close> and \<^verbatim>\<open>Sunday_Duties_for_{i}\<close>.\<close>

fun weekend_constraints ::
  "weekend_dist \<Rightarrow> date list \<Rightarrow> string list \<Rightarrow> named_constraint list
   \<Rightarrow> error + named_constraint list" where
  "weekend_constraints wd ds [] cs = Inr cs"
| "weekend_constraints wd ds (i # rest) cs =
     (case wd i of
        None \<Rightarrow> Inl KeyError
      | Some (sat, sun) \<Rightarrow>
          (case add_constraint cs
                  (Saturday_Duties_for (sanitize i),
                   Constraint (map (\<lambda>d. ((i, d), 1)) (filter (\<lambda>d. weekday d = 5) ds)) Eq sat) of
             Inl e \<Rightarrow> Inl e
           | Inr cs1 \<Rightarrow>
               (case add_constraint cs1
                       (Sunday_Duties_for (sanitize i),
                        Constraint (map (\<lambda>d. ((i, d), 1)) (filter (\<lambda>d. weekday d = 6) ds)) Eq sun) of
                  Inl e \<Rightarrow> Inl e
                | Inr cs2 \<Rightarrow> weekend_constraints wd ds rest cs2)))"

text \<open>Lines 113 to 119: the spacing constraints, named
  \<^verbatim>\<open>Min_Spacing_Shifts_{i}_{d1}_{d2}\<close>, in the order of the three nested loops.\<close>

definition spacing_constraints ::
  "string list \<Rightarrow> date list \<Rightarrow> int \<Rightarrow> named_constraint list" where
  "spacing_constraints ins ds spacing =
     concat (map (\<lambda>i.
       concat (map (\<lambda>j.
         concat (map (\<lambda>k.
           if j + k < length ds
           then [(Min_Spacing_Shifts (sanitize i) (ds ! j) (ds ! (j + k)),
                  Constraint [((i, ds ! j), 1), ((i, ds ! (j + k)), 1)] Le 1)]
           else [])
           [1..<nat (spacing + 1)]))
         [0..<length ds]))
       ins)"

text \<open>Lines 62 to 119 of \<^verbatim>\<open>solve\<close>: the variables and the four families of
  constraints, added to the problem in the order of the source, with the weekend targets
  computed between the quota and the weekend constraints. The first exception ends the
  construction. The weekend targets are returned beside the problem.\<close>

definition build_problem ::
  "scheduler \<Rightarrow> string list \<Rightarrow> string list \<Rightarrow> (error + (lp_problem \<times> weekend_dist)) option" where
  "build_problem self ins shuffled_interns =
     (case add_constraints []
             (coverage_constraints ins (dates self) (min_interns_per_duty self)) of
        Inl e \<Rightarrow> Some (Inl e)
      | Inr cs1 \<Rightarrow>
     (case quota_constraints (units_per_intern self) (dates self) ins cs1 of
        Inl e \<Rightarrow> Some (Inl e)
      | Inr cs2 \<Rightarrow>
     (case weekend_distribution self ins shuffled_interns of
        None \<Rightarrow> None
      | Some (Inl e) \<Rightarrow> Some (Inl e)
      | Some (Inr wd) \<Rightarrow>
     (case weekend_constraints wd (dates self) ins cs2 of
        Inl e \<Rightarrow> Some (Inl e)
      | Inr cs3 \<Rightarrow>
     (case add_constraints cs3
             (spacing_constraints ins (dates self) (minimum_spacing self)) of
        Inl e \<Rightarrow> Some (Inl e)
      | Inr cs4 \<Rightarrow>
          Some (Inr (\<lparr> variables = List.product ins (dates self), constraints = cs4 \<rparr>,
                     wd)))))))"

subsection \<open>The solver\<close>

text \<open>
  \<^verbatim>\<open>prob.solve()\<close> belongs to an external library. It is a parameter: a function from the
  problem to the value each variable holds afterwards (\<open>None\<close> for a variable it left
  unset). A value is an exact rational. What the solver reports about feasibility is not
  part of its result here, because \<^verbatim>\<open>solve\<close> discards it. A solver that cannot be run
  at all is outside the model.
\<close>

type_synonym assignment = "var \<Rightarrow> rat option"
type_synonym solver = "lp_problem \<Rightarrow> assignment"

definition var_value :: "assignment \<Rightarrow> var \<Rightarrow> rat" where
  "var_value v x = (case v x of None \<Rightarrow> 0 | Some r \<Rightarrow> r)"

definition lp_value :: "assignment \<Rightarrow> (var \<times> int) list \<Rightarrow> rat" where
  "lp_value v e = sum_list (map (\<lambda>(x, k). of_int k * var_value v x) e)"

fun holds :: "assignment \<Rightarrow> lp_constraint \<Rightarrow> bool" where
  "holds v (Constraint e Ge b) = (of_int b \<le> lp_value v e)"
| "holds v (Constraint e Eq b) = (lp_value v e = of_int b)"
| "holds v (Constraint e Le b) = (lp_value v e \<le> of_int b)"

definition is_binary :: "assignment \<Rightarrow> var \<Rightarrow> bool" where
  "is_binary v x = (v x = Some 0 \<or> v x = Some 1)"

text \<open>An assignment solves the problem: every variable is 0 or 1 and every constraint
  holds.\<close>

definition feasible :: "lp_problem \<Rightarrow> assignment \<Rightarrow> bool" where
  "feasible prob v =
     (list_all (is_binary v) (variables prob)
      \<and> list_all (holds v) (map snd (constraints prob)))"

section \<open>Schedule and metrics\<close>

type_synonym tally = "date list \<times> int \<times> nat \<times> nat \<times> nat"

text \<open>The counters \<^verbatim>\<open>weekdays\<close>, \<^verbatim>\<open>saturdays\<close> and \<^verbatim>\<open>sundays\<close>.\<close>

definition count_day :: "date \<Rightarrow> nat \<times> nat \<times> nat \<Rightarrow> nat \<times> nat \<times> nat" where
  "count_day d c =
     (case c of (wk, sa, su) \<Rightarrow>
        if weekday d < 5 then (wk + 1, sa, su)
        else if weekday d = 5 then (wk, sa + 1, su)
        else if weekday d = 6 then (wk, sa, su + 1)
        else (wk, sa, su))"

text \<open>The loop \<^verbatim>\<open>for d in self.dates\<close> for one intern; the tally is
  \<^verbatim>\<open>(shifts, total_units_used, weekdays, saturdays, sundays)\<close>.\<close>

fun extract_dates ::
  "assignment \<Rightarrow> string \<Rightarrow> date list \<Rightarrow> tally \<Rightarrow> (date \<rightharpoonup> string list)
   \<Rightarrow> error + (tally \<times> (date \<rightharpoonup> string list))" where
  "extract_dates v i [] t sched = Inr (t, sched)"
| "extract_dates v i (d # ds) (shifts, units_used, wk, sa, su) sched =
     (if v (i, d) = Some 1
      then (case sched d of
              None \<Rightarrow> Inl KeyError
            | Some on_duty \<Rightarrow>
                extract_dates v i ds
                  (shifts @ [d], units_used + get_units_for_day d, count_day d (wk, sa, su))
                  (sched(d \<mapsto> on_duty @ [i])))
      else extract_dates v i ds (shifts, units_used, wk, sa, su) sched)"

text \<open>\<^verbatim>\<open>for j in range(1, len(shifts)): total_spacing += (shifts[j] - shifts[j-1]).days\<close>\<close>

fun spacing_loop :: "date list \<Rightarrow> nat list \<Rightarrow> int \<Rightarrow> int" where
  "spacing_loop shifts [] total_spacing = total_spacing"
| "spacing_loop shifts (j # js) total_spacing =
     spacing_loop shifts js (total_spacing + (shifts ! j - shifts ! (j - 1)))"

definition compute_average_spacing :: "date list \<Rightarrow> date list \<Rightarrow> error + rat option" where
  "compute_average_spacing ds shifts =
     (if shifts \<noteq> []
      then (case ds of
              [] \<Rightarrow> Inl IndexError
            | _ # _ \<Rightarrow>
                let total_spacing = (hd shifts - hd ds) + (last ds - last shifts);
                    total_spacing' = spacing_loop shifts [1..<length shifts] total_spacing
                in Inr (Some (of_int total_spacing' / of_int (int (length shifts) + 1))))
      else Inr None)"

text \<open>The loop \<^verbatim>\<open>for i in self.interns\<close> of the extraction.\<close>

fun extract_interns ::
  "assignment \<Rightarrow> date list \<Rightarrow> string list \<Rightarrow> (date \<rightharpoonup> string list)
   \<Rightarrow> (string \<rightharpoonup> intern_metric)
   \<Rightarrow> error + ((date \<rightharpoonup> string list) \<times> (string \<rightharpoonup> intern_metric))" where
  "extract_interns v ds [] sched metrics = Inr (sched, metrics)"
| "extract_interns v ds (i # rest) sched metrics =
     (case extract_dates v i ds ([], 0, 0, 0, 0) sched of
        Inl e \<Rightarrow> Inl e
      | Inr ((shifts, units_used, wk, sa, su), sched') \<Rightarrow>
          (case compute_average_spacing ds shifts of
             Inl e \<Rightarrow> Inl e
           | Inr avg \<Rightarrow>
               extract_interns v ds rest sched'
                 (metrics(i \<mapsto> \<lparr> total_units_used = units_used, average_spacing = avg,
                                 num_shifts = length shifts, weekdays = wk,
                                 saturdays = sa, sundays = su \<rparr>))))"

section \<open>solve\<close>

text \<open>
  The state is the heap (the caller's list of interns), the generator and the scheduler
  object; the result is the exception raised or the scheduler with its schedule and
  metrics set, together with the heap and the generator as \<^verbatim>\<open>solve\<close> leaves them.
  \<open>None\<close> stands for a call that does not return.
\<close>

text \<open>\<^verbatim>\<open>solve\<close> after the feasibility check, in two parts: \<open>solve_model\<close> is lines 55 to
  119 (the two shuffles and the construction of the problem), \<open>solve_body\<close> adds the call
  of the solver and the extraction of the schedule and the metrics (lines 121 to 165).\<close>

definition solve_model ::
  "bool \<Rightarrow> rng \<Rightarrow> heap \<Rightarrow> scheduler
   \<Rightarrow> ((error + (lp_problem \<times> weekend_dist)) \<times> heap \<times> rng) option" where
  "solve_model randomize g h self =
     (case shuffle (h (interns self)) g of
        (shuffled_interns, g1) \<Rightarrow>
     (case (if randomize
            then (case shuffle (h (interns self)) g1 of
                    (x, g2) \<Rightarrow> (h(interns self := x), g2))
            else (h, g1)) of
        (h', g') \<Rightarrow>
     (case build_problem self (h' (interns self)) shuffled_interns of
        None \<Rightarrow> None
      | Some r \<Rightarrow> Some (r, h', g'))))"

definition solve_body ::
  "solver \<Rightarrow> bool \<Rightarrow> rng \<Rightarrow> heap \<Rightarrow> scheduler \<Rightarrow> ((error + scheduler) \<times> heap \<times> rng) option" where
  "solve_body solver randomize g h self =
     (case solve_model randomize g h self of
        None \<Rightarrow> None
      | Some (Inl e, h', g') \<Rightarrow> Some (Inl e, h', g')
      | Some (Inr (prob, wd), h', g') \<Rightarrow>
          (case extract_interns (solver prob) (dates self) (h' (interns self))
                  (map_of (map (\<lambda>d. (d, [])) (dates self))) Map.empty of
             Inl e \<Rightarrow> Some (Inl e, h', g')
           | Inr (sched, metrics) \<Rightarrow>
               Some (Inr (self\<lparr> schedule := Some sched, intern_metrics := Some metrics \<rparr>),
                     h', g')))"

definition solve ::
  "solver \<Rightarrow> bool \<Rightarrow> rng \<Rightarrow> heap \<Rightarrow> scheduler \<Rightarrow> ((error + scheduler) \<times> heap \<times> rng) option" where
  "solve solver randomize g h self =
     (let total_required_units = calculate_total_required_units self
      in case verify_units self total_required_units of
           Inl e \<Rightarrow> Some (Inl e, h, g)
         | Inr _ \<Rightarrow> solve_body solver randomize g h self)"

section \<open>Auxiliary definitions for the statements\<close>

text \<open>The expected numbers and the remainders of the pre-distribution, as pairs
  (Saturday, Sunday).\<close>

definition baseline :: "scheduler \<Rightarrow> string list \<Rightarrow> int \<times> int" where
  "baseline self ins =
     ((int (length (filter (\<lambda>d. weekday d = 5) (dates self))) * min_interns_per_duty self) div int (length ins),
      (int (length (filter (\<lambda>d. weekday d = 6) (dates self))) * min_interns_per_duty self) div int (length ins))"

definition remainders :: "scheduler \<Rightarrow> string list \<Rightarrow> int \<times> int" where
  "remainders self ins =
     ((int (length (filter (\<lambda>d. weekday d = 5) (dates self))) * min_interns_per_duty self) mod int (length ins),
      (int (length (filter (\<lambda>d. weekday d = 6) (dates self))) * min_interns_per_duty self) mod int (length ins))"

text \<open>Inputs for the examples: a heap where every list is empty, and a solver that leaves
  every variable unset.\<close>

definition empty_heap :: heap where
  "empty_heap a = []"

definition no_values :: solver where
  "no_values prob x = None"

text \<open>The sums of the Saturday and of the Sunday targets over the interns.\<close>

definition saturday_target_sum :: "weekend_dist \<Rightarrow> string list \<Rightarrow> int" where
  "saturday_target_sum wd ins =
     sum_list (map (\<lambda>i. case wd i of None \<Rightarrow> 0 | Some (sat, sun) \<Rightarrow> sat) ins)"

definition sunday_target_sum :: "weekend_dist \<Rightarrow> string list \<Rightarrow> int" where
  "sunday_target_sum wd ins =
     sum_list (map (\<lambda>i. case wd i of None \<Rightarrow> 0 | Some (sat, sun) \<Rightarrow> sun) ins)"

definition num_saturdays :: "scheduler \<Rightarrow> int" where
  "num_saturdays self = int (length (filter (\<lambda>d. weekday d = 5) (dates self)))"

definition num_sundays :: "scheduler \<Rightarrow> int" where
  "num_sundays self = int (length (filter (\<lambda>d. weekday d = 6) (dates self)))"

text \<open>A heap whose list at address 0 is \<^verbatim>\<open>["A", "B"]\<close>.\<close>

definition heap_AB :: heap where
  "heap_AB = empty_heap(0 := [''A'', ''B''])"

text \<open>What an assignment of values says: the dates on which an intern has the value 1, and
  the interns that have the value 1 on a date.\<close>

definition assigned_dates :: "assignment \<Rightarrow> string \<Rightarrow> date list \<Rightarrow> date list" where
  "assigned_dates v i ds = filter (\<lambda>d. v (i, d) = Some 1) ds"

definition on_duty :: "assignment \<Rightarrow> string list \<Rightarrow> date \<Rightarrow> string list" where
  "on_duty v ins d = filter (\<lambda>i. v (i, d) = Some 1) ins"

text \<open>What a schedule says: the dates of the horizon on which a person is on duty.\<close>

definition person_dates :: "(date \<rightharpoonup> string list) \<Rightarrow> date list \<Rightarrow> string \<Rightarrow> date list" where
  "person_dates sched ds i =
     filter (\<lambda>d. case sched d of None \<Rightarrow> False | Some l \<Rightarrow> i \<in> set l) ds"

text \<open>The average spacing in the words of the specification: the gap from the start of the
  horizon to the first shift, the gaps between consecutive shifts and the gap from the last
  shift to the end of the horizon, summed and divided by the number of shifts plus one;
  absent when there is no shift.\<close>

definition spec_gaps :: "date \<Rightarrow> date \<Rightarrow> date list \<Rightarrow> int list" where
  "spec_gaps horizon_start horizon_end shifts =
     (hd shifts - horizon_start)
     # map (\<lambda>(a, b). b - a) (zip shifts (tl shifts))
     @ [horizon_end - last shifts]"

definition spec_average_spacing :: "date \<Rightarrow> date \<Rightarrow> date list \<Rightarrow> rat option" where
  "spec_average_spacing horizon_start horizon_end shifts =
     (if shifts = [] then None
      else Some (of_int (sum_list (spec_gaps horizon_start horizon_end shifts))
                 / of_int (int (length shifts) + 1)))"

text \<open>The metrics of an intern as a function of the values of the variables.\<close>

definition expected_metric :: "assignment \<Rightarrow> date list \<Rightarrow> string \<Rightarrow> intern_metric" where
  "expected_metric v ds i =
     \<lparr> total_units_used = sum_list (map get_units_for_day (assigned_dates v i ds)),
       average_spacing = spec_average_spacing (hd ds) (last ds) (assigned_dates v i ds),
       num_shifts = length (assigned_dates v i ds),
       weekdays = fst (fold count_day (assigned_dates v i ds) (0, 0, 0)),
       saturdays = fst (snd (fold count_day (assigned_dates v i ds) (0, 0, 0))),
       sundays = snd (snd (fold count_day (assigned_dates v i ds) (0, 0, 0))) \<rparr>"

text \<open>The quota and weekend constraints as lists, and the problem \<^verbatim>\<open>solve\<close> builds when no
  key is missing and no two names coincide.\<close>

definition quota_rows ::
  "(string \<times> int) list \<Rightarrow> date list \<Rightarrow> string list \<Rightarrow> named_constraint list" where
  "quota_rows units ds ins =
     map (\<lambda>i. (Units_for (sanitize i),
                Constraint (map (\<lambda>d. ((i, d), get_units_for_day d)) ds) Eq (the (map_of units i)))) ins"

definition weekend_rows :: "weekend_dist \<Rightarrow> date list \<Rightarrow> string list \<Rightarrow> named_constraint list" where
  "weekend_rows wd ds ins =
     concat (map (\<lambda>i.
       [(Saturday_Duties_for (sanitize i),
         Constraint (map (\<lambda>d. ((i, d), 1)) (filter (\<lambda>d. weekday d = 5) ds)) Eq (fst (the (wd i)))),
        (Sunday_Duties_for (sanitize i),
         Constraint (map (\<lambda>d. ((i, d), 1)) (filter (\<lambda>d. weekday d = 6) ds)) Eq (snd (the (wd i))))]) ins)"

definition problem_of :: "scheduler \<Rightarrow> string list \<Rightarrow> weekend_dist \<Rightarrow> lp_problem" where
  "problem_of self ins wd =
     \<lparr> variables = List.product ins (dates self),
       constraints =
         coverage_constraints ins (dates self) (min_interns_per_duty self)
         @ quota_rows (units_per_intern self) (dates self) ins
         @ weekend_rows wd (dates self) ins
         @ spacing_constraints ins (dates self) (minimum_spacing self) \<rparr>"

text \<open>The heap and the generator after the two shuffles of \<^verbatim>\<open>solve\<close>.\<close>

definition heap_after :: "bool \<Rightarrow> rng \<Rightarrow> heap \<Rightarrow> scheduler \<Rightarrow> heap" where
  "heap_after randomize g h self =
     (if randomize
      then h(interns self := fst (shuffle (h (interns self)) (snd (shuffle (h (interns self)) g))))
      else h)"

definition rng_after :: "bool \<Rightarrow> rng \<Rightarrow> heap \<Rightarrow> scheduler \<Rightarrow> rng" where
  "rng_after randomize g h self =
     (if randomize
      then snd (shuffle (h (interns self)) (snd (shuffle (h (interns self)) g)))
      else snd (shuffle (h (interns self)) g))"

text \<open>The invariants of a schedule: coverage, quota, weekend targets and spacing.\<close>

definition coverage_ok :: "(date \<rightharpoonup> string list) \<Rightarrow> date list \<Rightarrow> int \<Rightarrow> bool" where
  "coverage_ok sched ds m =
     list_all (\<lambda>d. case sched d of None \<Rightarrow> False | Some l \<Rightarrow> m \<le> int (length l)) ds"

definition quota_ok ::
  "(date \<rightharpoonup> string list) \<Rightarrow> date list \<Rightarrow> (string \<times> int) list \<Rightarrow> string list \<Rightarrow> bool" where
  "quota_ok sched ds units ins =
     list_all (\<lambda>i. map_of units i
                    = Some (sum_list (map get_units_for_day (person_dates sched ds i)))) ins"

definition weekend_ok ::
  "(date \<rightharpoonup> string list) \<Rightarrow> date list \<Rightarrow> weekend_dist \<Rightarrow> string list \<Rightarrow> bool" where
  "weekend_ok sched ds wd ins =
     list_all (\<lambda>i. wd i
                    = Some (int (length (filter (\<lambda>d. weekday d = 5) (person_dates sched ds i))),
                            int (length (filter (\<lambda>d. weekday d = 6) (person_dates sched ds i))))) ins"

definition spacing_ok ::
  "(date \<rightharpoonup> string list) \<Rightarrow> date list \<Rightarrow> int \<Rightarrow> string list \<Rightarrow> bool" where
  "spacing_ok sched ds spacing ins =
     list_all (\<lambda>i.
       list_all (\<lambda>j.
         list_all (\<lambda>k.
           \<not> (j < k \<and> int (k - j) \<le> spacing
              \<and> ds ! j \<in> set (person_dates sched ds i)
              \<and> ds ! k \<in> set (person_dates sched ds i)))
           [0..<length ds])
         [0..<length ds])
       ins"

text \<open>Example: the weekend of 6 and 7 January 2024 for two interns, \<^verbatim>\<open>"A"\<close> with a quota of
  2 units and \<^verbatim>\<open>"B"\<close> with 3, one intern per duty and a spacing of one day; and a solver that
  puts \<^verbatim>\<open>"A"\<close> on the Saturday and \<^verbatim>\<open>"B"\<close> on the Sunday.\<close>

definition weekend_AB :: scheduler where
  "weekend_AB = init 738891 738892 0 [(''A'', 2), (''B'', 3)] 1 1"

definition solver_A_sat_B_sun :: solver where
  "solver_A_sat_B_sun prob x =
     (if x = (''A'', 738891) \<or> x = (''B'', 738892) then Some 1 else Some 0)"

text \<open>Example: Monday 1 and Tuesday 2 January 2024 for the single intern \<^verbatim>\<open>"A"\<close> with a quota
  of 2 units, one intern per duty and a spacing of one day. Coverage puts \<^verbatim>\<open>"A"\<close> on both
  days and the spacing forbids it: the problem has no solution.\<close>

definition two_days_A :: scheduler where
  "two_days_A = init 738886 738887 0 [(''A'', 2)] 1 1"

definition heap_A :: heap where
  "heap_A = empty_heap(0 := [''A''])"

text \<open>A solver that sets every variable to 1.\<close>

definition all_ones :: solver where
  "all_ones prob x = Some 1"


text \<open>The names of the spacing constraints, loop by loop.\<close>

definition spacing_names_k :: "string \<Rightarrow> date list \<Rightarrow> int \<Rightarrow> nat \<Rightarrow> cname list" where
  "spacing_names_k i ds spacing j =
     concat (map (\<lambda>k. if j + k < length ds
                      then [Min_Spacing_Shifts (sanitize i) (ds ! j) (ds ! (j + k))] else [])
                 [1..<nat (spacing + 1)])"

definition spacing_names_j :: "string \<Rightarrow> date list \<Rightarrow> int \<Rightarrow> cname list" where
  "spacing_names_j i ds spacing = concat (map (spacing_names_k i ds spacing) [0..<length ds])"

text \<open>Two days and two persons whose constraint names coincide: \<^verbatim>\<open>"A B"\<close> and
  \<^verbatim>\<open>"A_B"\<close>, with one unit each.\<close>

definition two_days_collide :: scheduler where
  "two_days_collide = init 738886 738887 0 [(''A B'', 1), (''A_B'', 1)] 1 1"

definition heap_collide :: heap where
  "heap_collide = empty_heap(0 := [''A B'', ''A_B''])"

section \<open>Lemmas\<close>

subsection \<open>Units\<close>

lemma weekday_range: "0 \<le> weekday d \<and> weekday d \<le> 6"
  by (simp add: weekday_def) 


lemma total_units_loop_sum:
  "total_units_loop ds acc = acc + sum_list (map get_units_for_day ds)"
  by (induction ds arbitrary: acc) (simp_all add: get_units_for_day_def)

lemma get_units_for_day_pos: "1 \<le> get_units_for_day d"
  by (simp add: get_units_for_day_def)

lemma sum_units_ge_length: "int (length ds) \<le> sum_list (map get_units_for_day ds)"
proof (induction ds)
  case Nil
  show ?case by simp
next
  case (Cons d ds)
  have "1 \<le> get_units_for_day d" by (rule get_units_for_day_pos)
  with Cons show ?case by simp
qed

lemma total_positive:
  assumes "dates self = generate_dates s e" and "s \<le> e"
  shows "0 < calculate_total_required_units self"
proof -
  have "length (dates self) = nat (e - s + 1)"
    using assms by (simp add: generate_dates_def)
  then have "0 < int (length (dates self))" using assms(2) by simp
  moreover have "int (length (dates self)) \<le> sum_list (map get_units_for_day (dates self))"
    by (rule sum_units_ge_length)
  ultimately have "0 < sum_list (map get_units_for_day (dates self))" by linarith
  then show ?thesis
    by (simp add: calculate_total_required_units_def total_units_loop_sum)
qed

subsection \<open>Shuffling\<close>

lemma randbelow_less: "0 < n \<Longrightarrow> fst (randbelow n g) < n"
  by (cases g) simp_all

lemma shuffle_loop_mset:
  "i < length x \<Longrightarrow> mset (fst (shuffle_loop i x g)) = mset x"
proof (induction i arbitrary: x g)
  case 0
  show ?case by simp
next
  case (Suc i)
  obtain j g' where r: "randbelow (Suc i + 1) g = (j, g')" by (cases "randbelow (Suc i + 1) g")
  have "fst (randbelow (Suc i + 1) g) < Suc i + 1" by (rule randbelow_less) simp
  with r have j: "j < length x" using Suc.prems by simp
  let ?y = "x[Suc i := x ! j, j := x ! Suc i]"
  have sw: "mset ?y = mset x" using Suc.prems j by (simp add: mset_swap)
  have "i < length ?y" using Suc.prems by simp
  then have "mset (fst (shuffle_loop i ?y g')) = mset ?y" by (rule Suc.IH)
  with sw r show ?case by simp
qed

lemma shuffle_mset: "mset (fst (shuffle x g)) = mset x"
proof (cases x)
  case Nil
  then show ?thesis by (simp add: shuffle_def)
next
  case (Cons a as)
  then have "length x - 1 < length x" by simp
  then show ?thesis unfolding shuffle_def by (rule shuffle_loop_mset)
qed

subsection \<open>The remainder loop\<close>

lemma distribute_pass_total:
  "set sh \<subseteq> dom wd \<Longrightarrow>
   \<exists>wd' rs' ru'. distribute_pass sh wd rs ru = Inr (wd', rs', ru') \<and> dom wd' = dom wd"
proof (induction sh arbitrary: wd rs ru)
  case Nil
  show ?case by simp
next
  case (Cons x rest)
  from Cons.prems obtain a b where x: "wd x = Some (a, b)" by fastforce
  have d3: "set rest \<subseteq> dom wd" using Cons.prems by auto
  have keep: "dom (wd(x \<mapsto> v)) = dom wd" for v using x by auto
  show ?case
  proof (cases "rs = 0 \<and> ru = 0")
    case True
    then show ?thesis by simp
  next
    case nz: False
    show ?thesis
    proof (cases "rs > 0")
      case True
      have "set rest \<subseteq> dom (wd(x \<mapsto> (a + 1, b)))" using d3 keep by simp
      from Cons.IH [OF this, of "rs - 1" ru] obtain wd' rs' ru' where
        "distribute_pass rest (wd(x \<mapsto> (a + 1, b))) (rs - 1) ru = Inr (wd', rs', ru')"
        and "dom wd' = dom (wd(x \<mapsto> (a + 1, b)))" by blast
      with True nz x keep show ?thesis by simp
    next
      case rs0: False
      show ?thesis
      proof (cases "ru > 0")
        case True
        have "set rest \<subseteq> dom (wd(x \<mapsto> (a, b + 1)))" using d3 keep by simp
        from Cons.IH [OF this, of rs "ru - 1"] obtain wd' rs' ru' where
          "distribute_pass rest (wd(x \<mapsto> (a, b + 1))) rs (ru - 1) = Inr (wd', rs', ru')"
          and "dom wd' = dom (wd(x \<mapsto> (a, b + 1)))" by blast
        with True rs0 nz x keep show ?thesis by simp
      next
        case False
        from Cons.IH [OF d3, of rs ru] False rs0 nz show ?thesis by simp
      qed
    qed
  qed
qed

lemma distribute_pass_rs_zero:
  "distribute_pass sh wd rs ru = Inr (wd', rs', ru') \<Longrightarrow> 0 \<le> rs \<Longrightarrow> rs \<le> int (length sh)
   \<Longrightarrow> rs' = 0"
proof (induction sh arbitrary: wd rs ru)
  case Nil
  then show ?case by simp
next
  case (Cons x rest)
  then show ?case
    by (auto split: if_splits option.splits)
qed

lemma distribute_pass_step:
  "distinct sh \<Longrightarrow> distribute_pass sh wd rs ru = Inr (wd', rs', ru') \<Longrightarrow> wd i = Some (a, b) \<Longrightarrow>
   \<exists>a' b'. wd' i = Some (a', b') \<and> a \<le> a' \<and> a' \<le> a + 1 \<and> b \<le> b' \<and> b' \<le> b + 1
            \<and> (i \<notin> set sh \<longrightarrow> a' = a \<and> b' = b)"
proof (induction sh arbitrary: wd rs ru a b)
  case Nil
  then show ?case by simp
next
  case (Cons x rest)
  have dr: "distinct rest" and xr: "x \<notin> set rest" using Cons.prems(1) by simp_all
  show ?case
  proof (cases "rs = 0 \<and> ru = 0")
    case True
    with Cons.prems show ?thesis by simp
  next
    case nz: False
    show ?thesis
    proof (cases "rs > 0")
      case True
      from Cons.prems(2) nz True obtain s u where
        wx: "wd x = Some (s, u)" and
        rec: "distribute_pass rest (wd(x \<mapsto> (s + 1, u))) (rs - 1) ru = Inr (wd', rs', ru')"
        by (auto split: option.splits)
      show ?thesis
      proof (cases "x = i")
        case True
        with wx Cons.prems(3) have "(wd(x \<mapsto> (s + 1, u))) i = Some (a + 1, b)" by simp
        from Cons.IH [OF dr rec this] xr True show ?thesis by auto
      next
        case False
        then have "(wd(x \<mapsto> (s + 1, u))) i = Some (a, b)" using Cons.prems(3) by simp
        from Cons.IH [OF dr rec this] False show ?thesis by auto
      qed
    next
      case rs0: False
      show ?thesis
      proof (cases "ru > 0")
        case True
        from Cons.prems(2) nz rs0 True obtain s u where
          wx: "wd x = Some (s, u)" and
          rec: "distribute_pass rest (wd(x \<mapsto> (s, u + 1))) rs (ru - 1) = Inr (wd', rs', ru')"
          by (auto split: option.splits)
        show ?thesis
        proof (cases "x = i")
          case True
          with wx Cons.prems(3) have "(wd(x \<mapsto> (s, u + 1))) i = Some (a, b + 1)" by simp
          from Cons.IH [OF dr rec this] xr True show ?thesis by auto
        next
          case False
          then have "(wd(x \<mapsto> (s, u + 1))) i = Some (a, b)" using Cons.prems(3) by simp
          from Cons.IH [OF dr rec this] False show ?thesis by auto
        qed
      next
        case False
        with Cons.prems(2) nz rs0 have
          rec: "distribute_pass rest wd rs ru = Inr (wd', rs', ru')" by simp
        from Cons.IH [OF dr rec Cons.prems(3)] show ?thesis by auto
      qed
    qed
  qed
qed

text \<open>When the Saturday remainder does not exceed the length of the list, which holds
  in \<^verbatim>\<open>solve\<close> because the remainder is taken modulo that length, the body of the loop
  runs at most once.\<close>

lemma distribute_while_once:
  assumes "set sh \<subseteq> dom wd" and "0 \<le> rs" and "rs \<le> int (length sh)"
  shows "distribute_while sh wd rs ru =
           (if rs > 0 \<and> ru > 0 then
              (case distribute_pass sh wd rs ru of
                 Inl e \<Rightarrow> Some (Inl e) | Inr (wd', rs', ru') \<Rightarrow> Some (Inr (wd', 0, ru')))
            else Some (Inr (wd, rs, ru)))"
proof (cases "rs > 0 \<and> ru > 0")
  case False
  then have c: "(0 < rs \<and> 0 < ru) = False" by simp
  show ?thesis by (subst distribute_while.simps) (simp only: c if_False)
next
  case True
  from distribute_pass_total [OF assms(1)] obtain wd' rs' ru' where
    p: "distribute_pass sh wd rs ru = Inr (wd', rs', ru')" by blast
  from distribute_pass_rs_zero [OF p assms(2,3)] have z: "rs' = 0" .
  have "distribute_while sh wd' 0 ru' = Some (Inr (wd', 0, ru'))"
    using distribute_while.simps [of sh wd' 0 ru'] by simp
  with True p z show ?thesis
    using distribute_while.simps [of sh wd rs ru] by simp
qed

text \<open>For a non-empty list whose interns all have targets the loop ends: every pass takes at
  least one unit from the Saturday remainder.\<close>

lemma distribute_pass_le:
  "distribute_pass sh wd rs ru = Inr (wd', rs', ru') \<Longrightarrow> 0 \<le> rs \<Longrightarrow> 0 \<le> rs' \<and> rs' \<le> rs"
proof (induction sh arbitrary: wd rs ru)
  case Nil
  then show ?case by simp
next
  case (Cons x rest)
  show ?case
  proof (cases "rs > 0")
    case True
    with Cons.prems(1) obtain s u where
      "distribute_pass rest (wd(x \<mapsto> (s + 1, u))) (rs - 1) ru = Inr (wd', rs', ru')"
      by (auto split: option.splits)
    from Cons.IH [OF this] True show ?thesis by simp
  next
    case False
    with Cons.prems(2) have z: "rs = 0" by simp
    show ?thesis
    proof (cases "ru > 0")
      case True
      with z Cons.prems(1) obtain s u where
        "distribute_pass rest (wd(x \<mapsto> (s, u + 1))) rs (ru - 1) = Inr (wd', rs', ru')"
        by (auto split: option.splits)
      from Cons.IH [OF this] z show ?thesis by simp
    next
      case False
      with z Cons.prems(1) have "ru = 0 \<and> rs' = rs \<or> distribute_pass rest wd rs ru = Inr (wd', rs', ru')"
        by (auto split: if_splits)
      then show ?thesis using Cons.IH [of wd rs ru] z by auto
    qed
  qed
qed

lemma distribute_pass_decreases:
  assumes "sh \<noteq> []" and "0 < rs" and "distribute_pass sh wd rs ru = Inr (wd', rs', ru')"
  shows "0 \<le> rs' \<and> rs' < rs"
proof -
  from assms(1) obtain x rest where sh: "sh = x # rest" by (cases sh) auto
  with assms(2,3) obtain s u where
    "distribute_pass rest (wd(x \<mapsto> (s + 1, u))) (rs - 1) ru = Inr (wd', rs', ru')"
    by (auto split: option.splits)
  from distribute_pass_le [OF this] assms(2) show ?thesis by simp
qed

lemma distribute_while_terminates:
  assumes "sh \<noteq> []" and "set sh \<subseteq> dom wd"
  shows "\<exists>wd' rs' ru'. distribute_while sh wd rs ru = Some (Inr (wd', rs', ru'))"
  using assms(2)
proof (induction "nat rs" arbitrary: wd rs ru rule: less_induct)
  case less
  show ?case
  proof (cases "rs > 0 \<and> ru > 0")
    case False
    then have c: "(0 < rs \<and> 0 < ru) = False" by simp
    show ?thesis by (subst distribute_while.simps) (simp only: c if_False, blast)
  next
    case True
    from distribute_pass_total [OF less.prems, of rs ru] obtain wd1 rs1 ru1 where
      p: "distribute_pass sh wd rs ru = Inr (wd1, rs1, ru1)" and dm: "dom wd1 = dom wd" by blast
    from distribute_pass_decreases [OF assms(1) _ p] True have "0 \<le> rs1 \<and> rs1 < rs" by simp
    then have "nat rs1 < nat rs" by simp
    moreover have "set sh \<subseteq> dom wd1" using less.prems dm by simp
    ultimately have "\<exists>wd' rs' ru'. distribute_while sh wd1 rs1 ru1 = Some (Inr (wd', rs', ru'))"
      by (rule less.hyps)
    then show ?thesis
      using True p distribute_while.simps [of sh wd rs ru] by simp
  qed
qed

subsection \<open>The weekend targets\<close>

lemma baseline_lookup: "i \<in> set ins \<Longrightarrow> map_of (map (\<lambda>intern. (intern, c)) ins) i = Some c"
  by (induction ins) auto

lemma baseline_dom: "dom (map_of (map (\<lambda>intern. (intern, c)) ins)) = set ins"
  by (simp add: dom_map_of_conv_image_fst image_image)

lemma weekend_distribution_unfold:
  assumes "ins \<noteq> []" and "set sh = set ins" and "length sh = length ins"
  shows "weekend_distribution self ins sh =
           (if fst (remainders self ins) > 0 \<and> snd (remainders self ins) > 0 then
              (case distribute_pass sh (map_of (map (\<lambda>intern. (intern, baseline self ins)) ins))
                      (fst (remainders self ins)) (snd (remainders self ins)) of
                 Inl e \<Rightarrow> Some (Inl e)
               | Inr (wd', rs', ru') \<Rightarrow> Some (Inr wd'))
            else Some (Inr (map_of (map (\<lambda>intern. (intern, baseline self ins)) ins))))"
proof -
  let ?wd = "map_of (map (\<lambda>intern. (intern, baseline self ins)) ins)"
  let ?rs = "fst (remainders self ins)" and ?ru = "snd (remainders self ins)"
  have n: "0 < int (length ins)" using assms(1) by simp
  have k: "set sh \<subseteq> dom ?wd" using assms(2) by (simp add: baseline_dom)
  have r0: "0 \<le> ?rs" using n by (simp add: remainders_def)
  have "?rs < int (length ins)" using n by (simp add: remainders_def)
  then have r1: "?rs \<le> int (length sh)" using assms(3) by simp
  have w: "distribute_while sh ?wd ?rs ?ru =
             (if ?rs > 0 \<and> ?ru > 0 then
                (case distribute_pass sh ?wd ?rs ?ru of
                   Inl e \<Rightarrow> Some (Inl e) | Inr (wd', rs', ru') \<Rightarrow> Some (Inr (wd', 0, ru')))
              else Some (Inr (?wd, ?rs, ?ru)))"
    using k r0 r1 by (rule distribute_while_once)
  have "weekend_distribution self ins sh =
          (case distribute_while sh ?wd ?rs ?ru of
             None \<Rightarrow> None | Some (Inl e) \<Rightarrow> Some (Inl e) | Some (Inr (wd', rs', ru')) \<Rightarrow> Some (Inr wd'))"
    using assms(1) by (simp add: weekend_distribution_def Let_def baseline_def remainders_def)
  also have "\<dots> = (if ?rs > 0 \<and> ?ru > 0 then
              (case distribute_pass sh ?wd ?rs ?ru of
                 Inl e \<Rightarrow> Some (Inl e)
               | Inr (wd', rs', ru') \<Rightarrow> Some (Inr wd'))
            else Some (Inr ?wd))"
    unfolding w by (simp split: sum.splits)
  finally show ?thesis .
qed

lemma weekend_distribution_bounds:
  assumes "ins \<noteq> []" and "distinct ins" and "mset sh = mset ins"
  shows "\<exists>wd. weekend_distribution self ins sh = Some (Inr wd) \<and> dom wd = set ins
          \<and> (\<forall>i \<in> set ins. \<exists>a b. wd i = Some (a, b)
                \<and> fst (baseline self ins) \<le> a \<and> a \<le> fst (baseline self ins) + 1
                \<and> snd (baseline self ins) \<le> b \<and> b \<le> snd (baseline self ins) + 1)"
proof -
  define wd0 where "wd0 = map_of (map (\<lambda>intern. (intern, baseline self ins)) ins)"
  define rs where "rs = fst (remainders self ins)"
  define ru where "ru = snd (remainders self ins)"
  define es where "es = fst (baseline self ins)"
  define eu where "eu = snd (baseline self ins)"
  have s: "set sh = set ins" using assms(3) by (rule mset_eq_setD)
  have l: "length sh = length ins" using assms(3) by (rule mset_eq_length)
  have d: "distinct sh" using mset_eq_imp_distinct_iff [OF assms(3)] assms(2) by simp
  have dom0: "dom wd0 = set ins" unfolding wd0_def by (rule baseline_dom)
  have look0: "wd0 i = Some (es, eu)" if "i \<in> set ins" for i
    unfolding wd0_def es_def eu_def using that by (simp add: baseline_lookup)
  have u: "weekend_distribution self ins sh =
           (if rs > 0 \<and> ru > 0 then
              (case distribute_pass sh wd0 rs ru of
                 Inl e \<Rightarrow> Some (Inl e)
               | Inr (wd', rs', ru') \<Rightarrow> Some (Inr wd'))
            else Some (Inr wd0))"
    unfolding wd0_def rs_def ru_def by (rule weekend_distribution_unfold [OF assms(1) s l])
  have "\<exists>wd. weekend_distribution self ins sh = Some (Inr wd) \<and> dom wd = set ins
          \<and> (\<forall>i \<in> set ins. \<exists>a b. wd i = Some (a, b)
                \<and> es \<le> a \<and> a \<le> es + 1 \<and> eu \<le> b \<and> b \<le> eu + 1)"
  proof (cases "rs > 0 \<and> ru > 0")
    case False
    then have "weekend_distribution self ins sh = Some (Inr wd0)" by (simp only: u if_False)
    moreover have "\<forall>i \<in> set ins. \<exists>a b. wd0 i = Some (a, b)
                \<and> es \<le> a \<and> a \<le> es + 1 \<and> eu \<le> b \<and> b \<le> eu + 1"
      using look0 by simp
    ultimately show ?thesis using dom0 by blast
  next
    case True
    have "set sh \<subseteq> dom wd0" using s dom0 by simp
    from distribute_pass_total [OF this, of rs ru] obtain wd' rs' ru' where
      p: "distribute_pass sh wd0 rs ru = Inr (wd', rs', ru')" and dm: "dom wd' = dom wd0" by blast
    have res: "weekend_distribution self ins sh = Some (Inr wd')"
      using True by (simp add: u p)
    have "\<exists>a b. wd' i = Some (a, b)
                \<and> es \<le> a \<and> a \<le> es + 1 \<and> eu \<le> b \<and> b \<le> eu + 1"
      if "i \<in> set ins" for i
      using distribute_pass_step [OF d p look0 [OF that]] by blast
    with res dm dom0 show ?thesis by blast
  qed
  then show ?thesis unfolding es_def eu_def .
qed

subsection \<open>Evaluation of the examples\<close>

lemma empty_heap_upd: "empty_heap(a := []) = empty_heap"
  by (simp add: fun_eq_iff empty_heap_def)

lemma dates_init: "dates (init s e a u m sp) = generate_dates s e"
  by (simp add: init_def)

lemma total_init:
  "calculate_total_required_units (init s e a u m sp) = sum_list (map get_units_for_day [s..e])"
  by (simp add: calculate_total_required_units_def total_units_loop_sum init_def generate_dates_def)

lemma week_2024: "[738886..738892] = [738886, 738887, 738888, 738889, 738890, 738891, 738892]"
  by (simp add: upto.simps)

lemma one_saturday: "generate_dates 738891 738891 = [738891]"
  by (simp add: generate_dates_def upto.simps)

lemma weekend_2024: "generate_dates 738891 738892 = [738891, 738892]"
  by (simp add: generate_dates_def upto.simps)

lemma wd_one_saturday:
  "weekend_distribution (init 738891 738891 0 [(''A'', 1), (''B'', 1)] 1 1) [''A'', ''B''] sh
     = Some (Inr (map_of [(''A'', (0, 0)), (''B'', (0, 0))]))"
  by (subst distribute_while.simps | simp add: weekend_distribution_def init_def one_saturday weekday_def)+

lemma nine_days: "generate_dates 738891 738899
   = [738891, 738892, 738893, 738894, 738895, 738896, 738897, 738898, 738899]"
  by (simp add: generate_dates_def upto.simps)

lemma wd_two_weekends:
  "weekend_distribution (init 738891 738899 0 u 1 sp) [''A'', ''B'', ''C''] [''A'', ''B'', ''C'']
     = Some (Inr (map_of [(''A'', (1, 0)), (''B'', (1, 0)), (''C'', (0, 1))]))"
  apply (simp add: weekend_distribution_def init_def nine_days weekday_def)
  apply (subst distribute_while.simps)
  apply simp
  apply (subst distribute_while.simps)
  apply (simp add: fun_eq_iff)
  done

lemma wd_weekend_AB:
  "weekend_distribution (init 738891 738892 0 u 1 sp) [''A'', ''B''] [''A'', ''B'']
     = Some (Inr (map_of [(''A'', (1, 0)), (''B'', (0, 1))]))"
  apply (simp add: weekend_distribution_def init_def weekend_2024 weekday_def)
  apply (subst distribute_while.simps)
  apply simp
  apply (subst distribute_while.simps)
  apply (simp add: fun_eq_iff)
  done

lemma wd_weekend_BA:
  "weekend_distribution (init 738891 738892 0 u 1 sp) [''A'', ''B''] [''B'', ''A'']
     = Some (Inr (map_of [(''A'', (0, 1)), (''B'', (1, 0))]))"
  apply (simp add: weekend_distribution_def init_def weekend_2024 weekday_def)
  apply (subst distribute_while.simps)
  apply simp
  apply (subst distribute_while.simps)
  apply (simp add: fun_eq_iff)
  done

lemma shuffle_AB_0: "shuffle [''A'', ''B''] (0 # g) = ([''B'', ''A''], g)"
  by (simp add: shuffle_def)

subsection \<open>Extraction\<close>

lemma extract_dates_result:
  assumes "set ds \<subseteq> dom sched"
  shows "\<exists>sched'. extract_dates v i ds (shifts, units_used, c) sched =
           Inr ((shifts @ assigned_dates v i ds,
                 units_used + sum_list (map get_units_for_day (assigned_dates v i ds)),
                 fold count_day (assigned_dates v i ds) c), sched')
         \<and> dom sched' = dom sched
         \<and> (\<forall>d. d \<notin> set ds \<longrightarrow> sched' d = sched d)
         \<and> (distinct ds \<longrightarrow> (\<forall>d \<in> set ds. sched' d =
               (if v (i, d) = Some 1 then map_option (\<lambda>l. l @ [i]) (sched d) else sched d)))"
  using assms
proof (induction ds arbitrary: shifts units_used c sched)
  case Nil
  show ?case by (simp add: assigned_dates_def)
next
  case (Cons d ds)
  obtain wk sa su where c: "c = (wk, sa, su)" by (cases c)
  from Cons.prems obtain l where l: "sched d = Some l" by fastforce
  show ?case
  proof (cases "v (i, d) = Some 1")
    case False
    have sub: "set ds \<subseteq> dom sched" using Cons.prems by simp
    from Cons.IH [OF sub, of shifts units_used c] obtain sched' where
      r: "extract_dates v i ds (shifts, units_used, c) sched =
           Inr ((shifts @ assigned_dates v i ds,
                 units_used + sum_list (map get_units_for_day (assigned_dates v i ds)),
                 fold count_day (assigned_dates v i ds) c), sched')"
      and dm: "dom sched' = dom sched"
      and out: "\<forall>d. d \<notin> set ds \<longrightarrow> sched' d = sched d"
      and ins: "distinct ds \<longrightarrow> (\<forall>d \<in> set ds. sched' d =
               (if v (i, d) = Some 1 then map_option (\<lambda>l. l @ [i]) (sched d) else sched d))"
      by blast
    have a: "assigned_dates v i (d # ds) = assigned_dates v i ds"
      using False by (simp add: assigned_dates_def)
    have "extract_dates v i (d # ds) (shifts, units_used, c) sched =
            extract_dates v i ds (shifts, units_used, c) sched"
      using False c by simp
    with r a dm out ins False show ?thesis by auto
  next
    case True
    let ?sched = "sched(d \<mapsto> l @ [i])"
    have sub: "set ds \<subseteq> dom ?sched" using Cons.prems by auto
    from Cons.IH [OF sub, of "shifts @ [d]" "units_used + get_units_for_day d" "count_day d c"]
    obtain sched' where
      r: "extract_dates v i ds (shifts @ [d], units_used + get_units_for_day d, count_day d c) ?sched =
           Inr (((shifts @ [d]) @ assigned_dates v i ds,
                 (units_used + get_units_for_day d) + sum_list (map get_units_for_day (assigned_dates v i ds)),
                 fold count_day (assigned_dates v i ds) (count_day d c)), sched')"
      and dm: "dom sched' = dom ?sched"
      and out: "\<forall>e. e \<notin> set ds \<longrightarrow> sched' e = ?sched e"
      and ins: "distinct ds \<longrightarrow> (\<forall>e \<in> set ds. sched' e =
               (if v (i, e) = Some 1 then map_option (\<lambda>l. l @ [i]) (?sched e) else ?sched e))"
      by blast
    have a: "assigned_dates v i (d # ds) = d # assigned_dates v i ds"
      using True by (simp add: assigned_dates_def)
    have st: "extract_dates v i (d # ds) (shifts, units_used, c) sched =
            extract_dates v i ds (shifts @ [d], units_used + get_units_for_day d, count_day d c) ?sched"
      using True c l by simp
    have dm': "dom sched' = dom sched" using dm l by auto
    have out': "\<forall>e. e \<notin> set (d # ds) \<longrightarrow> sched' e = sched e" using out by simp
    have ins': "distinct (d # ds) \<longrightarrow> (\<forall>e \<in> set (d # ds). sched' e =
               (if v (i, e) = Some 1 then map_option (\<lambda>l. l @ [i]) (sched e) else sched e))"
    proof
      assume dist: "distinct (d # ds)"
      then have dn: "d \<notin> set ds" and dd: "distinct ds" by simp_all
      show "\<forall>e \<in> set (d # ds). sched' e =
               (if v (i, e) = Some 1 then map_option (\<lambda>l. l @ [i]) (sched e) else sched e)"
      proof
        fix e assume e: "e \<in> set (d # ds)"
        show "sched' e = (if v (i, e) = Some 1 then map_option (\<lambda>l. l @ [i]) (sched e) else sched e)"
        proof (cases "e = d")
          case True
          with out dn have "sched' e = ?sched d" by simp
          with True \<open>v (i, d) = Some 1\<close> l show ?thesis by simp
        next
          case False
          with e have "e \<in> set ds" by simp
          with ins dd have "sched' e =
               (if v (i, e) = Some 1 then map_option (\<lambda>l. l @ [i]) (?sched e) else ?sched e)" by blast
          with False show ?thesis by simp
        qed
      qed
    qed
    show ?thesis
      unfolding st a using r dm' out' ins' by simp
  qed
qed


lemma spacing_loop_sum:
  "spacing_loop shifts js t = t + sum_list (map (\<lambda>j. shifts ! j - shifts ! (j - 1)) js)"
  by (induction js arbitrary: t) simp_all

lemma consecutive_gaps:
  "map (\<lambda>j. shifts ! j - shifts ! (j - 1)) [1..<length shifts]
     = map (\<lambda>(a, b). b - a) (zip shifts (tl shifts))"
proof (rule nth_equalityI)
  show "length (map (\<lambda>j. shifts ! j - shifts ! (j - 1)) [1..<length shifts])
          = length (map (\<lambda>(a, b). b - a) (zip shifts (tl shifts)))"
    by simp
next
  fix t assume "t < length (map (\<lambda>j. shifts ! j - shifts ! (j - 1)) [1..<length shifts])"
  then have t: "t < length shifts - 1" by simp
  then have "Suc t < length shifts" by simp
  then show "map (\<lambda>j. shifts ! j - shifts ! (j - 1)) [1..<length shifts] ! t
          = map (\<lambda>(a, b). b - a) (zip shifts (tl shifts)) ! t"
    using t by (simp add: nth_tl)
qed

lemma compute_average_spacing_spec:
  assumes "shifts \<noteq> [] \<longrightarrow> ds \<noteq> []"
  shows "compute_average_spacing ds shifts = Inr (spec_average_spacing (hd ds) (last ds) shifts)"
proof (cases "shifts = []")
  case True
  then show ?thesis by (simp add: compute_average_spacing_def spec_average_spacing_def)
next
  case False
  with assms obtain d ds' where ds: "ds = d # ds'" by (cases ds) auto
  have "spacing_loop shifts [1..<length shifts] ((hd shifts - hd ds) + (last ds - last shifts))
          = sum_list (spec_gaps (hd ds) (last ds) shifts)"
    unfolding spacing_loop_sum consecutive_gaps spec_gaps_def by simp
  then show ?thesis
    using False ds by (simp add: compute_average_spacing_def spec_average_spacing_def Let_def del: upt_Suc)
qed

text \<open>The gaps telescope: their sum is the length of the horizon in days, wherever the
  shifts are.\<close>

lemma average_spacing_telescopes:
  assumes "shifts \<noteq> []"
  shows "sum_list (spec_gaps horizon_start horizon_end shifts) = horizon_end - horizon_start"
proof -
  have "sum_list (map (\<lambda>(a, b). b - a) (zip xs (tl xs))) = last xs - hd xs" if "xs \<noteq> []"
    for xs :: "int list"
    using that
  proof (induction xs)
    case Nil
    then show ?case by simp
  next
    case (Cons x xs)
    show ?case
    proof (cases xs)
      case Nil
      then show ?thesis by simp
    next
      case (Cons y ys)
      with Cons.IH have "sum_list (map (\<lambda>(a, b). b - a) (zip xs (tl xs))) = last xs - hd xs" by simp
      with Cons show ?thesis by simp
    qed
  qed
  with assms show ?thesis by (simp add: spec_gaps_def)
qed

lemma assigned_nonempty: "assigned_dates v i ds \<noteq> [] \<longrightarrow> ds \<noteq> []"
  by (auto simp: assigned_dates_def)

lemma extract_interns_result:
  assumes "set ds \<subseteq> dom sched" and "distinct ds"
  shows "\<exists>sched' metrics'. extract_interns v ds ins sched metrics = Inr (sched', metrics')
           \<and> dom sched' = dom sched
           \<and> (\<forall>d \<in> set ds. sched' d = map_option (\<lambda>l. l @ on_duty v ins d) (sched d))
           \<and> (\<forall>i. metrics' i = (if i \<in> set ins then Some (expected_metric v ds i) else metrics i))"
  using assms(1)
proof (induction ins arbitrary: sched metrics)
  case Nil
  show ?case by (simp add: on_duty_def option.map_ident)
next
  case (Cons i rest)
  from extract_dates_result [OF Cons.prems, of v i "[]" 0 "(0, 0, 0)"] assms(2)
  obtain sched1 where
    e: "extract_dates v i ds ([], 0, (0, 0, 0)) sched =
          Inr ((assigned_dates v i ds, sum_list (map get_units_for_day (assigned_dates v i ds)),
                fold count_day (assigned_dates v i ds) (0, 0, 0)), sched1)"
    and dm1: "dom sched1 = dom sched"
    and s1: "\<forall>d \<in> set ds. sched1 d =
               (if v (i, d) = Some 1 then map_option (\<lambda>l. l @ [i]) (sched d) else sched d)"
    by auto
  obtain wk sa su where c: "fold count_day (assigned_dates v i ds) (0, 0, 0) = (wk, sa, su)"
    by (cases "fold count_day (assigned_dates v i ds) (0, 0, 0)")
  have avg: "compute_average_spacing ds (assigned_dates v i ds)
               = Inr (spec_average_spacing (hd ds) (last ds) (assigned_dates v i ds))"
    using assigned_nonempty by (rule compute_average_spacing_spec)
  let ?m = "\<lparr> total_units_used = sum_list (map get_units_for_day (assigned_dates v i ds)),
              average_spacing = spec_average_spacing (hd ds) (last ds) (assigned_dates v i ds),
              num_shifts = length (assigned_dates v i ds), weekdays = wk,
              saturdays = sa, sundays = su \<rparr>"
  have m: "?m = expected_metric v ds i" by (simp add: expected_metric_def c)
  have step: "extract_interns v ds (i # rest) sched metrics
                = extract_interns v ds rest sched1 (metrics(i \<mapsto> ?m))"
    by (simp add: e c avg)
  have sub1: "set ds \<subseteq> dom sched1" using Cons.prems dm1 by simp
  from Cons.IH [OF sub1, of "metrics(i \<mapsto> ?m)"] obtain sched' metrics' where
    r: "extract_interns v ds rest sched1 (metrics(i \<mapsto> ?m)) = Inr (sched', metrics')"
    and dm: "dom sched' = dom sched1"
    and s: "\<forall>d \<in> set ds. sched' d = map_option (\<lambda>l. l @ on_duty v rest d) (sched1 d)"
    and mt: "\<forall>j. metrics' j = (if j \<in> set rest then Some (expected_metric v ds j)
                                  else (metrics(i \<mapsto> ?m)) j)"
    by blast
  have s': "\<forall>d \<in> set ds. sched' d = map_option (\<lambda>l. l @ on_duty v (i # rest) d) (sched d)"
  proof
    fix d assume d: "d \<in> set ds"
    with s have a: "sched' d = map_option (\<lambda>l. l @ on_duty v rest d) (sched1 d)" by simp
    from s1 d have b: "sched1 d =
        (if v (i, d) = Some 1 then map_option (\<lambda>l. l @ [i]) (sched d) else sched d)" by simp
    show "sched' d = map_option (\<lambda>l. l @ on_duty v (i # rest) d) (sched d)"
      unfolding a b by (cases "sched d") (simp_all add: on_duty_def)
  qed
  have mt': "\<forall>j. metrics' j = (if j \<in> set (i # rest) then Some (expected_metric v ds j) else metrics j)"
    using mt m by auto
  show ?case unfolding step using r dm dm1 s' mt' by simp
qed

subsection \<open>Adding named constraints\<close>

lemma add_constraints_result:
  "distinct (map fst new) \<Longrightarrow> fst ` set new \<inter> fst ` set cs = {} \<Longrightarrow>
   add_constraints cs new = Inr (cs @ new)"
proof (induction new arbitrary: cs)
  case Nil
  show ?case by simp
next
  case (Cons nc rest)
  have a: "fst nc \<notin> fst ` set cs" using Cons.prems(2) by auto
  have d: "distinct (map fst rest)" using Cons.prems(1) by simp
  have "fst ` set rest \<inter> fst ` set (cs @ [nc]) = {}"
    using Cons.prems by auto
  from Cons.IH [OF d this] a show ?case by (simp add: add_constraint_def)
qed

lemma add_constraints_Inr:
  "add_constraints cs new = Inr cs' \<Longrightarrow> cs' = cs @ new"
proof (induction new arbitrary: cs)
  case Nil
  then show ?case by simp
next
  case (Cons nc rest)
  then have "add_constraints (cs @ [nc]) rest = Inr cs'"
    by (auto simp: add_constraint_def split: if_splits)
  from Cons.IH [OF this] show ?case by simp
qed

lemma sanitize_inj_on:
  "distinct (map sanitize ins) \<Longrightarrow> i \<in> set ins \<Longrightarrow> j \<in> set ins \<Longrightarrow>
   sanitize i = sanitize j \<Longrightarrow> i = j"
  by (meson distinct_map inj_onD)

lemma quota_constraints_result:
  assumes "set ins \<subseteq> fst ` set units"
    and "distinct (map sanitize ins)"
    and "\<forall>i \<in> set ins. Units_for (sanitize i) \<notin> fst ` set cs"
  shows "quota_constraints units ds ins cs = Inr (cs @ quota_rows units ds ins)"
  using assms
proof (induction ins arbitrary: cs)
  case Nil
  show ?case by (simp add: quota_rows_def)
next
  case (Cons i rest)
  then have "i \<in> fst ` set units" by simp
  then obtain q where q: "map_of units i = Some q"
    by (metis domD dom_map_of_conv_image_fst)
  let ?nc = "(Units_for (sanitize i), Constraint (map (\<lambda>d. ((i, d), get_units_for_day d)) ds) Eq q)"
  have fresh: "Units_for (sanitize i) \<notin> fst ` set cs" using Cons.prems(3) by simp
  have k: "set rest \<subseteq> fst ` set units" using Cons.prems(1) by simp
  have d: "distinct (map sanitize rest)" using Cons.prems(2) by simp
  have n0: "sanitize i \<notin> sanitize ` set rest" using Cons.prems(2) by simp
  have n: "\<forall>j \<in> set rest. sanitize j \<noteq> sanitize i" using n0 by (metis imageI)
  have f: "\<forall>j \<in> set rest. Units_for (sanitize j) \<notin> fst ` set (cs @ [?nc])"
    using Cons.prems(3) n by auto
  from Cons.IH [OF k d f] have
    "quota_constraints units ds rest (cs @ [?nc]) = Inr ((cs @ [?nc]) @ quota_rows units ds rest)" .
  with q fresh show ?case by (simp add: quota_rows_def add_constraint_def)
qed

lemma quota_constraints_Inr:
  "quota_constraints units ds ins cs = Inr cs' \<Longrightarrow>
   set ins \<subseteq> fst ` set units \<and> cs' = cs @ quota_rows units ds ins"
proof (induction ins arbitrary: cs)
  case Nil
  then show ?case by (simp add: quota_rows_def)
next
  case (Cons i rest)
  from Cons.prems obtain q where q: "map_of units i = Some q"
    and r: "quota_constraints units ds rest
              (cs @ [(Units_for (sanitize i),
                      Constraint (map (\<lambda>d. ((i, d), get_units_for_day d)) ds) Eq q)]) = Inr cs'"
    by (auto simp: add_constraint_def split: option.splits sum.splits if_splits)
  from q have "i \<in> fst ` set units" by (metis domI dom_map_of_conv_image_fst)
  with Cons.IH [OF r] q show ?case by (simp add: quota_rows_def)
qed

lemma weekend_constraints_result:
  assumes "set ins \<subseteq> dom wd"
    and "distinct (map sanitize ins)"
    and "\<forall>i \<in> set ins. Saturday_Duties_for (sanitize i) \<notin> fst ` set cs
                        \<and> Sunday_Duties_for (sanitize i) \<notin> fst ` set cs"
  shows "weekend_constraints wd ds ins cs = Inr (cs @ weekend_rows wd ds ins)"
  using assms
proof (induction ins arbitrary: cs)
  case Nil
  show ?case by (simp add: weekend_rows_def)
next
  case (Cons i rest)
  then obtain sat sun where w: "wd i = Some (sat, sun)" by fastforce
  let ?a = "(Saturday_Duties_for (sanitize i),
             Constraint (map (\<lambda>d. ((i, d), 1)) (filter (\<lambda>d. weekday d = 5) ds)) Eq sat)"
  let ?b = "(Sunday_Duties_for (sanitize i),
             Constraint (map (\<lambda>d. ((i, d), 1)) (filter (\<lambda>d. weekday d = 6) ds)) Eq sun)"
  have fresh: "Saturday_Duties_for (sanitize i) \<notin> fst ` set cs"
    "Sunday_Duties_for (sanitize i) \<notin> fst ` set cs" using Cons.prems(3) by simp_all
  have k: "set rest \<subseteq> dom wd" using Cons.prems(1) by simp
  have d: "distinct (map sanitize rest)" using Cons.prems(2) by simp
  have n0: "sanitize i \<notin> sanitize ` set rest" using Cons.prems(2) by simp
  have n: "\<forall>j \<in> set rest. sanitize j \<noteq> sanitize i" using n0 by (metis imageI)
  have f: "\<forall>j \<in> set rest. Saturday_Duties_for (sanitize j) \<notin> fst ` set (cs @ [?a, ?b])
                        \<and> Sunday_Duties_for (sanitize j) \<notin> fst ` set (cs @ [?a, ?b])"
    using Cons.prems(3) n by auto
  from Cons.IH [OF k d f] have
    "weekend_constraints wd ds rest (cs @ [?a, ?b]) = Inr ((cs @ [?a, ?b]) @ weekend_rows wd ds rest)" .
  with w fresh show ?case by (simp add: weekend_rows_def add_constraint_def)
qed

lemma weekend_constraints_Inr:
  "weekend_constraints wd ds ins cs = Inr cs' \<Longrightarrow>
   set ins \<subseteq> dom wd \<and> cs' = cs @ weekend_rows wd ds ins"
proof (induction ins arbitrary: cs)
  case Nil
  then show ?case by (simp add: weekend_rows_def)
next
  case (Cons i rest)
  from Cons.prems obtain sat sun where w: "wd i = Some (sat, sun)"
    and r: "weekend_constraints wd ds rest
              (cs @ [(Saturday_Duties_for (sanitize i),
                      Constraint (map (\<lambda>d. ((i, d), 1)) (filter (\<lambda>d. weekday d = 5) ds)) Eq sat),
                     (Sunday_Duties_for (sanitize i),
                      Constraint (map (\<lambda>d. ((i, d), 1)) (filter (\<lambda>d. weekday d = 6) ds)) Eq sun)])
            = Inr cs'"
    by (auto simp: add_constraint_def split: option.splits sum.splits if_splits)
  with Cons.IH [OF r] show ?case by (auto simp: weekend_rows_def)
qed

lemma distinct_concat_map:
  assumes "distinct xs"
    and "\<And>x. x \<in> set xs \<Longrightarrow> distinct (f x)"
    and "\<And>x y. x \<in> set xs \<Longrightarrow> y \<in> set xs \<Longrightarrow> x \<noteq> y \<Longrightarrow> set (f x) \<inter> set (f y) = {}"
  shows "distinct (concat (map f xs))"
  using assms
proof (induction xs)
  case Nil
  show ?case by simp
next
  case (Cons x xs)
  have "distinct (concat (map f xs))" using Cons by simp
  moreover have "distinct (f x)" using Cons.prems(2) by simp
  moreover have "set (f x) \<inter> set (concat (map f xs)) = {}"
  proof -
    have "set (f x) \<inter> set (f y) = {}" if "y \<in> set xs" for y
    proof -
      from that Cons.prems(1) have "x \<noteq> y" by auto
      with Cons.prems(3) [of x y] that show ?thesis by simp
    qed
    then show ?thesis by auto
  qed
  ultimately show ?case by simp
qed

lemma spacing_names:
  "map fst (spacing_constraints ins ds spacing) = concat (map (\<lambda>i. spacing_names_j i ds spacing) ins)"
proof -
  have c: "map fst (if b then [(n, c)] else []) = (if b then [n] else [])"
    for b :: bool and n :: cname and c :: lp_constraint
    by simp
  show ?thesis
    unfolding spacing_constraints_def spacing_names_j_def spacing_names_k_def
    by (simp add: map_concat comp_def c del: upt_Suc)
qed

lemma spacing_names_k_mem:
  "n \<in> set (spacing_names_k i ds spacing j) \<Longrightarrow>
   \<exists>k. j + k < length ds \<and> n = Min_Spacing_Shifts (sanitize i) (ds ! j) (ds ! (j + k))"
  by (auto simp: spacing_names_k_def split: if_splits)

lemma spacing_names_j_mem:
  "n \<in> set (spacing_names_j i ds spacing) \<Longrightarrow> \<exists>d1 d2. n = Min_Spacing_Shifts (sanitize i) d1 d2"
  by (auto simp: spacing_names_j_def dest: spacing_names_k_mem)

lemma spacing_names_k_distinct:
  assumes "distinct ds"
  shows "distinct (spacing_names_k i ds spacing j)"
  unfolding spacing_names_k_def
proof (rule distinct_concat_map)
  show "distinct [1..<nat (spacing + 1)]" by simp
next
  fix k
  show "distinct (if j + k < length ds
                  then [Min_Spacing_Shifts (sanitize i) (ds ! j) (ds ! (j + k))] else [])"
    by simp
next
  fix k k' :: nat
  assume "k \<noteq> k'"
  then have "ds ! (j + k) \<noteq> ds ! (j + k')" if "j + k < length ds" "j + k' < length ds"
    using that assms by (simp add: nth_eq_iff_index_eq)
  then show "set (if j + k < length ds
                  then [Min_Spacing_Shifts (sanitize i) (ds ! j) (ds ! (j + k))] else [])
          \<inter> set (if j + k' < length ds
                  then [Min_Spacing_Shifts (sanitize i) (ds ! j) (ds ! (j + k'))] else []) = {}"
    by auto
qed

lemma spacing_names_j_distinct:
  assumes "distinct ds"
  shows "distinct (spacing_names_j i ds spacing)"
  unfolding spacing_names_j_def
proof (rule distinct_concat_map)
  show "distinct [0..<length ds]" by simp
next
  fix j
  show "distinct (spacing_names_k i ds spacing j)" using assms by (rule spacing_names_k_distinct)
next
  fix j j' :: nat
  assume j: "j \<in> set [0..<length ds]" and j': "j' \<in> set [0..<length ds]" and ne: "j \<noteq> j'"
  then have d: "ds ! j \<noteq> ds ! j'" using assms by (simp add: nth_eq_iff_index_eq)
  show "set (spacing_names_k i ds spacing j) \<inter> set (spacing_names_k i ds spacing j') = {}"
  proof (rule ccontr)
    assume "set (spacing_names_k i ds spacing j) \<inter> set (spacing_names_k i ds spacing j') \<noteq> {}"
    then obtain n where a: "n \<in> set (spacing_names_k i ds spacing j)"
      and b: "n \<in> set (spacing_names_k i ds spacing j')" by auto
    from spacing_names_k_mem [OF a] spacing_names_k_mem [OF b] d show False by auto
  qed
qed

lemma spacing_constraints_distinct:
  assumes "distinct (map sanitize ins)" and "distinct ds"
  shows "distinct (map fst (spacing_constraints ins ds spacing))"
  unfolding spacing_names
proof (rule distinct_concat_map)
  show "distinct ins" using assms(1) by (simp add: distinct_map)
next
  fix i
  show "distinct (spacing_names_j i ds spacing)" using assms(2) by (rule spacing_names_j_distinct)
next
  fix i i'
  assume i: "i \<in> set ins" and i': "i' \<in> set ins" and ne: "i \<noteq> i'"
  then have s: "sanitize i \<noteq> sanitize i'" using sanitize_inj_on [OF assms(1)] by blast
  show "set (spacing_names_j i ds spacing) \<inter> set (spacing_names_j i' ds spacing) = {}"
  proof (rule ccontr)
    assume "set (spacing_names_j i ds spacing) \<inter> set (spacing_names_j i' ds spacing) \<noteq> {}"
    then obtain n where a: "n \<in> set (spacing_names_j i ds spacing)"
      and b: "n \<in> set (spacing_names_j i' ds spacing)" by auto
    from spacing_names_j_mem [OF a] spacing_names_j_mem [OF b] s show False by auto
  qed
qed

lemma spacing_constraints_family:
  "n \<in> fst ` set (spacing_constraints ins ds spacing) \<Longrightarrow> \<exists>a d1 d2. n = Min_Spacing_Shifts a d1 d2"
proof -
  assume "n \<in> fst ` set (spacing_constraints ins ds spacing)"
  then have "n \<in> set (map fst (spacing_constraints ins ds spacing))" by simp
  then obtain i where "n \<in> set (spacing_names_j i ds spacing)"
    unfolding spacing_names by auto
  from spacing_names_j_mem [OF this] show ?thesis by blast
qed

lemma coverage_names: "map fst (coverage_constraints ins ds m) = map Min_Interns_on ds"
  by (simp add: coverage_constraints_def comp_def)

lemma quota_names: "map fst (quota_rows units ds ins) = map (\<lambda>i. Units_for (sanitize i)) ins"
  by (simp add: quota_rows_def comp_def)

lemma weekend_names:
  "fst ` set (weekend_rows wd ds ins)
     = (\<lambda>i. Saturday_Duties_for (sanitize i)) ` set ins \<union> (\<lambda>i. Sunday_Duties_for (sanitize i)) ` set ins"
  by (auto simp: weekend_rows_def image_iff)

lemma weekend_distribution_total:
  assumes "ins \<noteq> []" and "mset sh = mset ins"
  shows "\<exists>wd. weekend_distribution self ins sh = Some (Inr wd) \<and> dom wd = set ins"
proof -
  define wd0 where "wd0 = map_of (map (\<lambda>intern. (intern, baseline self ins)) ins)"
  define rs where "rs = fst (remainders self ins)"
  define ru where "ru = snd (remainders self ins)"
  have s: "set sh = set ins" using assms(2) by (rule mset_eq_setD)
  have l: "length sh = length ins" using assms(2) by (rule mset_eq_length)
  have dom0: "dom wd0 = set ins" unfolding wd0_def by (rule baseline_dom)
  have u: "weekend_distribution self ins sh =
           (if rs > 0 \<and> ru > 0 then
              (case distribute_pass sh wd0 rs ru of
                 Inl e \<Rightarrow> Some (Inl e)
               | Inr (wd', rs', ru') \<Rightarrow> Some (Inr wd'))
            else Some (Inr wd0))"
    unfolding wd0_def rs_def ru_def by (rule weekend_distribution_unfold [OF assms(1) s l])
  show ?thesis
  proof (cases "rs > 0 \<and> ru > 0")
    case False
    then have "weekend_distribution self ins sh = Some (Inr wd0)" by (simp only: u if_False)
    with dom0 show ?thesis by blast
  next
    case True
    have "set sh \<subseteq> dom wd0" using s dom0 by simp
    from distribute_pass_total [OF this, of rs ru] obtain wd' rs' ru' where
      p: "distribute_pass sh wd0 rs ru = Inr (wd', rs', ru')" and dm: "dom wd' = dom wd0" by blast
    have "weekend_distribution self ins sh = Some (Inr wd')"
      using True by (simp add: u p)
    with dm dom0 show ?thesis by blast
  qed
qed

lemma build_problem_result:
  assumes "ins \<noteq> []" and "mset sh = mset ins" and "set ins \<subseteq> fst ` set (units_per_intern self)"
    and "distinct (map sanitize ins)" and "distinct (dates self)"
  shows "\<exists>wd. weekend_distribution self ins sh = Some (Inr wd) \<and> dom wd = set ins
           \<and> build_problem self ins sh = Some (Inr (problem_of self ins wd, wd))"
proof -
  let ?cov = "coverage_constraints ins (dates self) (min_interns_per_duty self)"
  let ?quota = "quota_rows (units_per_intern self) (dates self) ins"
  let ?spacing = "spacing_constraints ins (dates self) (minimum_spacing self)"
  from weekend_distribution_total [OF assms(1,2), of self] obtain wd where
    w: "weekend_distribution self ins sh = Some (Inr wd)" and d: "dom wd = set ins" by blast
  let ?weekend = "weekend_rows wd (dates self) ins"
  have ncov: "fst ` set ?cov = Min_Interns_on ` set (dates self)"
    using coverage_names [of ins "dates self" "min_interns_per_duty self"]
    by (metis set_map)
  have nquota: "fst ` set ?quota = (\<lambda>i. Units_for (sanitize i)) ` set ins"
    using quota_names [of "units_per_intern self" "dates self" ins] by (metis set_map)
  have c: "add_constraints [] ?cov = Inr ?cov"
    using add_constraints_result [of ?cov "[]"] assms(5)
    by (simp add: coverage_names distinct_map inj_on_def)
  have q: "quota_constraints (units_per_intern self) (dates self) ins ?cov = Inr (?cov @ ?quota)"
  proof (rule quota_constraints_result [OF assms(3,4)])
    show "\<forall>i \<in> set ins. Units_for (sanitize i) \<notin> fst ` set ?cov"
      unfolding ncov by auto
  qed
  have k: "weekend_constraints wd (dates self) ins (?cov @ ?quota) = Inr ((?cov @ ?quota) @ ?weekend)"
  proof (rule weekend_constraints_result [OF _ assms(4)])
    show "set ins \<subseteq> dom wd" using d by simp
    show "\<forall>i \<in> set ins. Saturday_Duties_for (sanitize i) \<notin> fst ` set (?cov @ ?quota)
            \<and> Sunday_Duties_for (sanitize i) \<notin> fst ` set (?cov @ ?quota)"
      by (auto simp: image_Un ncov nquota)
  qed
  have s: "add_constraints ((?cov @ ?quota) @ ?weekend) ?spacing
             = Inr (((?cov @ ?quota) @ ?weekend) @ ?spacing)"
  proof (rule add_constraints_result)
    show "distinct (map fst ?spacing)" using assms(4,5) by (rule spacing_constraints_distinct)
    show "fst ` set ?spacing \<inter> fst ` set ((?cov @ ?quota) @ ?weekend) = {}"
    proof (rule ccontr)
      assume "fst ` set ?spacing \<inter> fst ` set ((?cov @ ?quota) @ ?weekend) \<noteq> {}"
      then obtain n where a: "n \<in> fst ` set ?spacing"
        and b: "n \<in> fst ` set ((?cov @ ?quota) @ ?weekend)" by blast
      from spacing_constraints_family [OF a] obtain x d1 d2 where
        n: "n = Min_Spacing_Shifts x d1 d2" by blast
      from b show False
        unfolding n by (auto simp: image_Un ncov nquota weekend_names)
    qed
  qed
  have "build_problem self ins sh = Some (Inr (problem_of self ins wd, wd))"
    using s by (simp add: build_problem_def c q w k problem_of_def)
  with w d show ?thesis by blast
qed

lemma solve_model_unfold:
  "solve_model randomize g h self =
     (case build_problem self (heap_after randomize g h self (interns self))
             (fst (shuffle (h (interns self)) g)) of
        None \<Rightarrow> None
      | Some r \<Rightarrow> Some (r, heap_after randomize g h self, rng_after randomize g h self))"
proof -
  obtain sh g1 where a: "shuffle (h (interns self)) g = (sh, g1)"
    by (cases "shuffle (h (interns self)) g")
  obtain x g2 where b: "shuffle (h (interns self)) g1 = (x, g2)"
    by (cases "shuffle (h (interns self)) g1")
  show ?thesis
    by (cases randomize)
      (simp_all add: solve_model_def heap_after_def rng_after_def a b split: option.splits)
qed

lemma heap_after_mset:
  "mset (heap_after randomize g h self (interns self)) = mset (h (interns self))"
  by (simp add: heap_after_def shuffle_mset)

lemma heap_after_frame: "a \<noteq> interns self \<Longrightarrow> heap_after randomize g h self a = h a"
  by (simp add: heap_after_def)

lemma solve_model_result:
  assumes "h (interns self) \<noteq> []"
    and "set (h (interns self)) \<subseteq> fst ` set (units_per_intern self)"
    and "distinct (map sanitize (h (interns self)))"
    and "distinct (dates self)"
  shows "\<exists>wd. weekend_distribution self (heap_after randomize g h self (interns self))
                 (fst (shuffle (h (interns self)) g)) = Some (Inr wd)
           \<and> dom wd = set (h (interns self))
           \<and> solve_model randomize g h self =
               Some (Inr (problem_of self (heap_after randomize g h self (interns self)) wd, wd),
                     heap_after randomize g h self, rng_after randomize g h self)"
proof -
  let ?ins = "heap_after randomize g h self (interns self)"
  let ?sh = "fst (shuffle (h (interns self)) g)"
  have m: "mset ?ins = mset (h (interns self))" by (rule heap_after_mset)
  have s: "set ?ins = set (h (interns self))" using m by (rule mset_eq_setD)
  have ne: "?ins \<noteq> []" using m assms(1) by (metis mset_zero_iff)
  have ms: "mset ?sh = mset ?ins" using m by (simp add: shuffle_mset)
  have k: "set ?ins \<subseteq> fst ` set (units_per_intern self)" using s assms(2) by simp
  have "mset (map sanitize ?ins) = mset (map sanitize (h (interns self)))"
    using m by (metis mset_map)
  from mset_eq_imp_distinct_iff [OF this] assms(3)
  have ds: "distinct (map sanitize ?ins)" by simp
  from build_problem_result [OF ne ms k ds assms(4)] obtain wd where
    "weekend_distribution self ?ins ?sh = Some (Inr wd)" and "dom wd = set ?ins"
    and "build_problem self ?ins ?sh = Some (Inr (problem_of self ?ins wd, wd))" by blast
  then show ?thesis using s by (simp add: solve_model_unfold)
qed

lemma solve_body_result:
  assumes "solve_model randomize g h self = Some (Inr (prob, wd), h', g')"
    and "distinct (dates self)"
  shows "\<exists>sched metrics.
           solve_body solver randomize g h self =
             Some (Inr (self\<lparr> schedule := Some sched, intern_metrics := Some metrics \<rparr>), h', g')
           \<and> (\<forall>d \<in> set (dates self). sched d = Some (on_duty (solver prob) (h' (interns self)) d))
           \<and> (\<forall>i. metrics i = (if i \<in> set (h' (interns self))
                                  then Some (expected_metric (solver prob) (dates self) i) else None))"
proof -
  let ?s0 = "map_of (map (\<lambda>d. (d, [])) (dates self)) :: date \<rightharpoonup> string list"
  have d0: "set (dates self) \<subseteq> dom ?s0" by (simp add: baseline_dom)
  from extract_interns_result [OF d0 assms(2), of "solver prob" "h' (interns self)" Map.empty]
  obtain sched metrics where
    e: "extract_interns (solver prob) (dates self) (h' (interns self)) ?s0 Map.empty = Inr (sched, metrics)"
    and s: "\<forall>d \<in> set (dates self). sched d =
              map_option (\<lambda>l. l @ on_duty (solver prob) (h' (interns self)) d) (?s0 d)"
    and m: "\<forall>i. metrics i = (if i \<in> set (h' (interns self))
                                  then Some (expected_metric (solver prob) (dates self) i) else None)"
    by auto
  have "\<forall>d \<in> set (dates self). sched d = Some (on_duty (solver prob) (h' (interns self)) d)"
    using s by (simp add: baseline_lookup)
  moreover have "solve_body solver randomize g h self =
             Some (Inr (self\<lparr> schedule := Some sched, intern_metrics := Some metrics \<rparr>), h', g')"
    by (simp add: solve_body_def assms(1) e)
  ultimately show ?thesis using m by blast
qed

subsection \<open>Feasible assignments\<close>

lemma lp_value_binary:
  "\<forall>y \<in> set ys. is_binary v (f y) \<Longrightarrow>
   lp_value v (map (\<lambda>y. (f y, w y)) ys)
     = of_int (sum_list (map w (filter (\<lambda>y. v (f y) = Some 1) ys)))"
proof (induction ys)
  case Nil
  show ?case by (simp add: lp_value_def)
next
  case (Cons y ys)
  then have ih: "lp_value v (map (\<lambda>y. (f y, w y)) ys)
     = of_int (sum_list (map w (filter (\<lambda>y. v (f y) = Some 1) ys)))" by simp
  have split: "lp_value v (map (\<lambda>y. (f y, w y)) (y # ys))
      = of_int (w y) * var_value v (f y) + lp_value v (map (\<lambda>y. (f y, w y)) ys)"
    by (simp add: lp_value_def)
  from Cons.prems have "v (f y) = Some 0 \<or> v (f y) = Some 1" by (simp add: is_binary_def)
  then show ?case
  proof
    assume "v (f y) = Some 0"
    then show ?thesis unfolding split ih by (simp add: var_value_def)
  next
    assume "v (f y) = Some 1"
    then show ?thesis unfolding split ih by (simp add: var_value_def)
  qed
qed

lemma lp_value_count:
  assumes "\<forall>y \<in> set ys. is_binary v (f y)"
  shows "lp_value v (map (\<lambda>y. (f y, 1)) ys) = of_nat (length (filter (\<lambda>y. v (f y) = Some 1) ys))"
proof -
  have "sum_list (map (\<lambda>y. 1 :: int) zs) = int (length zs)" for zs :: "'a list"
    by (induction zs) simp_all
  with lp_value_binary [OF assms, of "\<lambda>y. 1"] show ?thesis by simp
qed

lemma feasible_holds: "feasible prob v \<Longrightarrow> (n, c) \<in> set (constraints prob) \<Longrightarrow> holds v c"
  by (force simp: feasible_def list_all_iff)

lemma feasible_binary: "feasible prob v \<Longrightarrow> x \<in> set (variables prob) \<Longrightarrow> is_binary v x"
  by (simp add: feasible_def list_all_iff)

lemma mem_concat_map: "x \<in> set xs \<Longrightarrow> c \<in> set (f x) \<Longrightarrow> c \<in> set (concat (map f xs))"
  by auto

lemma spacing_constraint_mem:
  assumes "i \<in> set ins" and "j < k" and "k < length ds" and "int (k - j) \<le> spacing"
  shows "(Min_Spacing_Shifts (sanitize i) (ds ! j) (ds ! k),
          Constraint [((i, ds ! j), 1), ((i, ds ! k), 1)] Le 1) \<in> set (spacing_constraints ins ds spacing)"
proof -
  let ?k = "k - j"
  let ?c = "(Min_Spacing_Shifts (sanitize i) (ds ! j) (ds ! k),
             Constraint [((i, ds ! j), 1), ((i, ds ! k), 1)] Le 1)"
  have k1: "?k \<in> set [1..<nat (spacing + 1)]" using assms(2,4) by auto
  have j1: "j \<in> set [0..<length ds]" using assms(2,3) by simp
  have jk: "j + ?k < length ds" using assms(2,3) by simp
  have e: "ds ! (j + ?k) = ds ! k" using assms(2) by simp
  have "?c \<in> set (if j + ?k < length ds
                  then [(Min_Spacing_Shifts (sanitize i) (ds ! j) (ds ! (j + ?k)),
                         Constraint [((i, ds ! j), 1), ((i, ds ! (j + ?k)), 1)] Le 1)] else [])"
    using jk e by simp
  with k1 have "?c \<in> set (concat (map (\<lambda>k.
           if j + k < length ds
           then [(Min_Spacing_Shifts (sanitize i) (ds ! j) (ds ! (j + k)),
                  Constraint [((i, ds ! j), 1), ((i, ds ! (j + k)), 1)] Le 1)]
           else []) [1..<nat (spacing + 1)]))"
    by (rule mem_concat_map)
  with j1 have "?c \<in> set (concat (map (\<lambda>j. concat (map (\<lambda>k.
           if j + k < length ds
           then [(Min_Spacing_Shifts (sanitize i) (ds ! j) (ds ! (j + k)),
                  Constraint [((i, ds ! j), 1), ((i, ds ! (j + k)), 1)] Le 1)]
           else []) [1..<nat (spacing + 1)])) [0..<length ds]))"
    by (rule mem_concat_map)
  with assms(1) show ?thesis
    unfolding spacing_constraints_def by (rule mem_concat_map)
qed

subsection \<open>Invariants of a schedule read from a feasible assignment\<close>

lemma person_dates_assigned:
  assumes "\<forall>d \<in> set ds. sched d = Some (on_duty v ins d)" and "i \<in> set ins"
  shows "person_dates sched ds i = assigned_dates v i ds"
  unfolding person_dates_def assigned_dates_def
proof (rule filter_cong [OF refl])
  fix d assume "d \<in> set ds"
  with assms(1) have "sched d = Some (on_duty v ins d)" by simp
  then show "(case sched d of None \<Rightarrow> False | Some l \<Rightarrow> i \<in> set l) = (v (i, d) = Some 1)"
    using assms(2) by (simp add: on_duty_def)
qed

lemma problem_binary:
  assumes "feasible (problem_of self ins wd) v" and "i \<in> set ins" and "d \<in> set (dates self)"
  shows "is_binary v (i, d)"
proof -
  have "(i, d) \<in> set (variables (problem_of self ins wd))"
    using assms(2,3) by (simp add: problem_of_def)
  with assms(1) show ?thesis by (rule feasible_binary)
qed

lemma feasible_coverage:
  assumes f: "feasible (problem_of self ins wd) v"
    and sc: "\<forall>d \<in> set (dates self). sched d = Some (on_duty v ins d)"
  shows "coverage_ok sched (dates self) (min_interns_per_duty self)"
  unfolding coverage_ok_def list_all_iff
proof
  fix d assume d: "d \<in> set (dates self)"
  let ?c = "Constraint (map (\<lambda>i. ((i, d), 1)) ins) Ge (min_interns_per_duty self)"
  have "(Min_Interns_on d, ?c) \<in> set (coverage_constraints ins (dates self) (min_interns_per_duty self))"
    using d by (auto simp: coverage_constraints_def)
  then have "(Min_Interns_on d, ?c) \<in> set (constraints (problem_of self ins wd))"
    by (simp add: problem_of_def)
  with f have "holds v ?c" by (rule feasible_holds)
  then have h: "(of_int (min_interns_per_duty self) :: rat) \<le> lp_value v (map (\<lambda>i. ((i, d), 1)) ins)"
    by simp
  have b: "\<forall>i \<in> set ins. is_binary v (i, d)" using problem_binary [OF f _ d] by blast
  have "lp_value v (map (\<lambda>i. ((i, d), 1)) ins) = of_nat (length (on_duty v ins d))"
    unfolding on_duty_def using b by (rule lp_value_count)
  with h have "(of_int (min_interns_per_duty self) :: rat) \<le> of_int (int (length (on_duty v ins d)))"
    by simp
  then have "min_interns_per_duty self \<le> int (length (on_duty v ins d))"
    by (simp only: of_int_le_iff)
  with sc d show "case sched d of None \<Rightarrow> False | Some l \<Rightarrow> min_interns_per_duty self \<le> int (length l)"
    by simp
qed

lemma feasible_quota:
  assumes f: "feasible (problem_of self ins wd) v"
    and keys: "set ins \<subseteq> fst ` set (units_per_intern self)"
    and sc: "\<forall>d \<in> set (dates self). sched d = Some (on_duty v ins d)"
  shows "quota_ok sched (dates self) (units_per_intern self) ins"
  unfolding quota_ok_def list_all_iff
proof
  fix i assume i: "i \<in> set ins"
  with keys have "i \<in> fst ` set (units_per_intern self)" by blast
  then obtain q where q: "map_of (units_per_intern self) i = Some q"
    by (metis domD dom_map_of_conv_image_fst)
  let ?c = "Constraint (map (\<lambda>d. ((i, d), get_units_for_day d)) (dates self)) Eq
              (the (map_of (units_per_intern self) i))"
  have "(Units_for (sanitize i), ?c) \<in> set (quota_rows (units_per_intern self) (dates self) ins)"
    using i by (auto simp: quota_rows_def)
  then have "(Units_for (sanitize i), ?c) \<in> set (constraints (problem_of self ins wd))"
    by (simp add: problem_of_def)
  with f have "holds v ?c" by (rule feasible_holds)
  then have h: "lp_value v (map (\<lambda>d. ((i, d), get_units_for_day d)) (dates self)) = (of_int q :: rat)"
    using q by simp
  have b: "\<forall>d \<in> set (dates self). is_binary v (i, d)" using problem_binary [OF f i] by blast
  have "lp_value v (map (\<lambda>d. ((i, d), get_units_for_day d)) (dates self))
          = of_int (sum_list (map get_units_for_day (assigned_dates v i (dates self))))"
    unfolding assigned_dates_def using b by (rule lp_value_binary)
  with h have "(of_int q :: rat) = of_int (sum_list (map get_units_for_day (assigned_dates v i (dates self))))"
    by simp
  then have "q = sum_list (map get_units_for_day (assigned_dates v i (dates self)))"
    by (simp only: of_int_eq_iff)
  with q show "map_of (units_per_intern self) i
         = Some (sum_list (map get_units_for_day (person_dates sched (dates self) i)))"
    by (simp add: person_dates_assigned [OF sc i])
qed

lemma feasible_weekend_day:
  assumes f: "feasible (problem_of self ins wd) v" and i: "i \<in> set ins"
    and c: "(n, Constraint (map (\<lambda>d. ((i, d), 1)) (filter P (dates self))) Eq t)
              \<in> set (weekend_rows wd (dates self) ins)"
  shows "t = int (length (filter P (assigned_dates v i (dates self))))"
proof -
  let ?c = "Constraint (map (\<lambda>d. ((i, d), 1)) (filter P (dates self))) Eq t"
  have "(n, ?c) \<in> set (constraints (problem_of self ins wd))" using c by (simp add: problem_of_def)
  with f have "holds v ?c" by (rule feasible_holds)
  then have h: "lp_value v (map (\<lambda>d. ((i, d), 1)) (filter P (dates self))) = (of_int t :: rat)"
    by simp
  have b: "\<forall>d \<in> set (filter P (dates self)). is_binary v (i, d)"
    using problem_binary [OF f i] by simp
  have "lp_value v (map (\<lambda>d. ((i, d), 1)) (filter P (dates self)))
          = of_nat (length (filter (\<lambda>d. v (i, d) = Some 1) (filter P (dates self))))"
    using b by (rule lp_value_count)
  with h have "(of_int t :: rat) = of_int (int (length (filter (\<lambda>d. v (i, d) = Some 1) (filter P (dates self)))))"
    by simp
  then have "t = int (length (filter (\<lambda>d. v (i, d) = Some 1) (filter P (dates self))))"
    by (simp only: of_int_eq_iff)
  also have "filter (\<lambda>d. v (i, d) = Some 1) (filter P (dates self))
               = filter P (assigned_dates v i (dates self))"
    by (simp add: assigned_dates_def conj_commute)
  finally show ?thesis .
qed

lemma feasible_weekend:
  assumes f: "feasible (problem_of self ins wd) v"
    and wdk: "set ins \<subseteq> dom wd"
    and sc: "\<forall>d \<in> set (dates self). sched d = Some (on_duty v ins d)"
  shows "weekend_ok sched (dates self) wd ins"
  unfolding weekend_ok_def list_all_iff
proof
  fix i assume i: "i \<in> set ins"
  with wdk obtain sat sun where w: "wd i = Some (sat, sun)" by fastforce
  have "(Saturday_Duties_for (sanitize i),
         Constraint (map (\<lambda>d. ((i, d), 1)) (filter (\<lambda>d. weekday d = 5) (dates self))) Eq sat)
          \<in> set (weekend_rows wd (dates self) ins)"
    unfolding weekend_rows_def using i w by (intro mem_concat_map [of i]) simp_all
  from feasible_weekend_day [OF f i this]
  have a: "sat = int (length (filter (\<lambda>d. weekday d = 5) (assigned_dates v i (dates self))))" .
  have "(Sunday_Duties_for (sanitize i),
         Constraint (map (\<lambda>d. ((i, d), 1)) (filter (\<lambda>d. weekday d = 6) (dates self))) Eq sun)
          \<in> set (weekend_rows wd (dates self) ins)"
    unfolding weekend_rows_def using i w by (intro mem_concat_map [of i]) simp_all
  from feasible_weekend_day [OF f i this]
  have b: "sun = int (length (filter (\<lambda>d. weekday d = 6) (assigned_dates v i (dates self))))" .
  show "wd i = Some (int (length (filter (\<lambda>d. weekday d = 5) (person_dates sched (dates self) i))),
                     int (length (filter (\<lambda>d. weekday d = 6) (person_dates sched (dates self) i))))"
    using w a b by (simp add: person_dates_assigned [OF sc i])
qed

lemma feasible_spacing:
  assumes f: "feasible (problem_of self ins wd) v"
    and sc: "\<forall>d \<in> set (dates self). sched d = Some (on_duty v ins d)"
  shows "spacing_ok sched (dates self) (minimum_spacing self) ins"
  unfolding spacing_ok_def list_all_iff
proof (intro ballI notI)
  fix i j k
  assume i: "i \<in> set ins"
    and "j \<in> set [0..<length (dates self)]" and "k \<in> set [0..<length (dates self)]"
    and a: "j < k \<and> int (k - j) \<le> minimum_spacing self
            \<and> dates self ! j \<in> set (person_dates sched (dates self) i)
            \<and> dates self ! k \<in> set (person_dates sched (dates self) i)"
  then have jl: "j < length (dates self)" and kl: "k < length (dates self)" by simp_all
  let ?c = "Constraint [((i, dates self ! j), 1), ((i, dates self ! k), 1)] Le 1"
  let ?n = "Min_Spacing_Shifts (sanitize i) (dates self ! j) (dates self ! k)"
  have "(?n, ?c) \<in> set (spacing_constraints ins (dates self) (minimum_spacing self))"
    using i a kl by (intro spacing_constraint_mem) auto
  then have "(?n, ?c) \<in> set (constraints (problem_of self ins wd))" by (simp add: problem_of_def)
  with f have "holds v ?c" by (rule feasible_holds)
  then have h: "var_value v (i, dates self ! j) + var_value v (i, dates self ! k) \<le> 1"
    by (simp add: lp_value_def)
  from a have "v (i, dates self ! j) = Some 1" and "v (i, dates self ! k) = Some 1"
    by (simp_all add: person_dates_assigned [OF sc i] assigned_dates_def)
  then have "var_value v (i, dates self ! j) + var_value v (i, dates self ! k) = 2"
    by (simp add: var_value_def)
  with h show False by simp
qed

subsection \<open>What a successful run tells\<close>

lemma build_problem_Inr:
  assumes "build_problem self ins sh = Some (Inr (prob, wd))"
  shows "ins \<noteq> [] \<and> set ins \<subseteq> fst ` set (units_per_intern self) \<and> set ins \<subseteq> dom wd
         \<and> weekend_distribution self ins sh = Some (Inr wd) \<and> prob = problem_of self ins wd"
proof -
  from assms obtain cs1 cs2 cs3 cs4 where
    c: "add_constraints [] (coverage_constraints ins (dates self) (min_interns_per_duty self)) = Inr cs1"
    and q: "quota_constraints (units_per_intern self) (dates self) ins cs1 = Inr cs2"
    and w: "weekend_distribution self ins sh = Some (Inr wd)"
    and k: "weekend_constraints wd (dates self) ins cs2 = Inr cs3"
    and s: "add_constraints cs3 (spacing_constraints ins (dates self) (minimum_spacing self)) = Inr cs4"
    and p: "prob = \<lparr> variables = List.product ins (dates self), constraints = cs4 \<rparr>"
    by (auto simp: build_problem_def split: sum.splits option.splits)
  have c1: "cs1 = coverage_constraints ins (dates self) (min_interns_per_duty self)"
    using add_constraints_Inr [OF c] by simp
  from quota_constraints_Inr [OF q] have keys: "set ins \<subseteq> fst ` set (units_per_intern self)"
    and c2: "cs2 = cs1 @ quota_rows (units_per_intern self) (dates self) ins" by simp_all
  from weekend_constraints_Inr [OF k] have wk: "set ins \<subseteq> dom wd"
    and c3: "cs3 = cs2 @ weekend_rows wd (dates self) ins" by simp_all
  have c4: "cs4 = cs3 @ spacing_constraints ins (dates self) (minimum_spacing self)"
    using s by (rule add_constraints_Inr)
  have ne: "ins \<noteq> []"
  proof
    assume "ins = []"
    then have "weekend_distribution self ins sh = Some (Inl ZeroDivisionError)"
      by (simp add: weekend_distribution_def)
    with w show False by simp
  qed
  have "prob = problem_of self ins wd" using p c1 c2 c3 c4 by (simp add: problem_of_def)
  with ne keys wk w show ?thesis by simp
qed

lemma solve_model_Inr:
  assumes "solve_model randomize g h self = Some (Inr (prob, wd), h', g')"
  shows "h' = heap_after randomize g h self \<and> g' = rng_after randomize g h self
         \<and> h (interns self) \<noteq> []
         \<and> set (h' (interns self)) \<subseteq> fst ` set (units_per_intern self)
         \<and> set (h' (interns self)) \<subseteq> dom wd
         \<and> weekend_distribution self (h' (interns self)) (fst (shuffle (h (interns self)) g))
             = Some (Inr wd)
         \<and> prob = problem_of self (h' (interns self)) wd"
proof -
  from assms have b: "build_problem self (heap_after randomize g h self (interns self))
             (fst (shuffle (h (interns self)) g)) = Some (Inr (prob, wd))"
    and h': "h' = heap_after randomize g h self" and g': "g' = rng_after randomize g h self"
    by (auto simp: solve_model_unfold split: option.splits)
  from build_problem_Inr [OF b] have
    ne: "heap_after randomize g h self (interns self) \<noteq> []"
    and rest: "set (heap_after randomize g h self (interns self)) \<subseteq> fst ` set (units_per_intern self)"
      "set (heap_after randomize g h self (interns self)) \<subseteq> dom wd"
      "weekend_distribution self (heap_after randomize g h self (interns self))
         (fst (shuffle (h (interns self)) g)) = Some (Inr wd)"
      "prob = problem_of self (heap_after randomize g h self (interns self)) wd"
    by simp_all
  have "h (interns self) \<noteq> []"
    using ne heap_after_mset [of randomize g h self] by (metis mset_zero_iff)
  with h' g' rest show ?thesis by simp
qed

lemma solve_Inr:
  assumes "solve solver randomize g h self = Some (Inr self', h', g')"
  shows "solve_body solver randomize g h self = Some (Inr self', h', g')"
  using assms by (simp add: solve_def Let_def split: sum.splits)

lemma solve_body_Inr:
  assumes "solve_body solver randomize g h self = Some (Inr self', h', g')"
  shows "\<exists>prob wd. solve_model randomize g h self = Some (Inr (prob, wd), h', g')"
  using assms by (auto simp: solve_body_def split: option.splits sum.splits prod.splits)

lemma generate_dates_distinct: "distinct (generate_dates s e)"
  by (simp add: generate_dates_def)

subsection \<open>The weekend example\<close>

lemma weekend_AB_fields:
  "dates weekend_AB = [738891, 738892]"
  "interns weekend_AB = 0"
  "units_per_intern weekend_AB = [(''A'', 2), (''B'', 3)]"
  "min_interns_per_duty weekend_AB = 1"
  "minimum_spacing weekend_AB = 1"
  "start_date weekend_AB = 738891"
  "end_date weekend_AB = 738892"
  by (simp_all add: weekend_AB_def init_def weekend_2024)

lemma heap_AB_0: "heap_AB 0 = [''A'', ''B'']"
  by (simp add: heap_AB_def)

lemma weekend_AB_verify:
  "solve solver randomize g h weekend_AB = solve_body solver randomize g h weekend_AB"
proof -
  have "calculate_total_required_units weekend_AB = 5"
    by (simp add: calculate_total_required_units_def weekend_AB_fields weekday_def)
  then show ?thesis
    by (simp add: solve_def verify_units_def weekend_AB_fields)
qed

lemma wd_AB: "weekend_distribution weekend_AB [''A'', ''B''] [''A'', ''B'']
     = Some (Inr (map_of [(''A'', (1, 0)), (''B'', (0, 1))]))"
  unfolding weekend_AB_def by (rule wd_weekend_AB)

lemma feasible_AB:
  "feasible (problem_of weekend_AB [''A'', ''B''] (map_of [(''A'', (1, 0)), (''B'', (0, 1))]))
     (solver_A_sat_B_sun p)"
  by (simp add: feasible_def problem_of_def weekend_AB_fields coverage_constraints_def
      quota_rows_def weekend_rows_def spacing_constraints_def lp_value_def var_value_def
      is_binary_def solver_A_sat_B_sun_def weekday_def get_units_for_day_def upt_conv_Cons)

subsection \<open>Runs of solve\<close>

lemma solve_total:
  assumes "verify_units self (calculate_total_required_units self) = Inr ()"
    and "h (interns self) \<noteq> []"
    and "set (h (interns self)) \<subseteq> fst ` set (units_per_intern self)"
    and "distinct (dates self)"
    and "distinct (map sanitize (h (interns self)))"
  shows "\<exists>prob wd sched metrics h' g'.
           solve_model randomize g h self = Some (Inr (prob, wd), h', g')
           \<and> solve solver randomize g h self =
               Some (Inr (self\<lparr> schedule := Some sched, intern_metrics := Some metrics \<rparr>), h', g')
           \<and> (\<forall>d \<in> set (dates self). sched d = Some (on_duty (solver prob) (h' (interns self)) d))
           \<and> (\<forall>i. metrics i = (if i \<in> set (h' (interns self))
                                  then Some (expected_metric (solver prob) (dates self) i) else None))"
proof -
  from solve_model_result [where h = h and self = self and randomize = randomize and g = g]
    assms(2,3,5,4)
  obtain prob wd h' g' where
    m: "solve_model randomize g h self = Some (Inr (prob, wd), h', g')" by blast
  from solve_body_result [OF m assms(4), of solver] obtain sched metrics where
    b: "solve_body solver randomize g h self =
          Some (Inr (self\<lparr> schedule := Some sched, intern_metrics := Some metrics \<rparr>), h', g')"
    and sc: "\<forall>d \<in> set (dates self). sched d = Some (on_duty (solver prob) (h' (interns self)) d)"
    and mt: "\<forall>i. metrics i = (if i \<in> set (h' (interns self))
                                  then Some (expected_metric (solver prob) (dates self) i) else None)"
    by blast
  have "solve solver randomize g h self = solve_body solver randomize g h self"
    using assms(1) by (simp add: solve_def)
  with m b sc mt show ?thesis by metis
qed

lemma horizon_ends:
  assumes "dates self = generate_dates (start_date self) (end_date self)" and "dates self \<noteq> []"
  shows "hd (dates self) = start_date self \<and> last (dates self) = end_date self"
proof -
  from assms have le: "start_date self \<le> end_date self" by (simp add: generate_dates_def)
  then have "hd [start_date self..end_date self] = start_date self" by (simp add: upto.simps)
  moreover have "last [start_date self..end_date self] = end_date self"
    using le by (simp add: upto_rec2)
  ultimately show ?thesis using assms(1) by (simp add: generate_dates_def)
qed

lemma spec_average_spacing_horizon:
  assumes "dates self = generate_dates (start_date self) (end_date self)"
  shows "spec_average_spacing (hd (dates self)) (last (dates self)) (assigned_dates v i (dates self))
           = spec_average_spacing (start_date self) (end_date self) (assigned_dates v i (dates self))"
proof (cases "assigned_dates v i (dates self) = []")
  case True
  then show ?thesis by (simp add: spec_average_spacing_def)
next
  case False
  then have "dates self \<noteq> []" using assigned_nonempty by blast
  with horizon_ends [OF assms] show ?thesis by simp
qed

lemma solve_heap:
  assumes "solve solver randomize g h self = Some (Inr self', h', g')"
  shows "h' = heap_after randomize g h self \<and> interns self' = interns self"
proof -
  from solve_body_Inr [OF solve_Inr [OF assms]] obtain prob wd where
    m: "solve_model randomize g h self = Some (Inr (prob, wd), h', g')" by blast
  then have h: "h' = heap_after randomize g h self" using solve_model_Inr by blast
  from solve_Inr [OF assms] m have "interns self' = interns self"
    by (auto simp: solve_body_def split: sum.splits)
  with h show ?thesis by simp
qed

lemma shuffle_AB_Suc0: "shuffle [''A'', ''B''] (Suc 0 # g) = ([''A'', ''B''], g)"
  by (simp add: shuffle_def)

lemma heap_after_AB_False: "heap_after False g heap_AB weekend_AB = heap_AB"
  by (simp add: heap_after_def)

lemma heap_after_AB_True:
  "heap_after True (1 # 0 # g) heap_AB weekend_AB = heap_AB(0 := [''B'', ''A''])"
  by (simp add: heap_after_def weekend_AB_fields heap_AB_0 shuffle_AB_Suc0 shuffle_AB_0)

lemma rng_after_AB_False: "rng_after False (r # g) heap_AB weekend_AB = g"
  by (simp add: rng_after_def weekend_AB_fields heap_AB_0 shuffle_def)

lemma weekend_AB_keys: "set (heap_AB (interns weekend_AB)) \<subseteq> fst ` set (units_per_intern weekend_AB)"
  by (simp add: weekend_AB_fields heap_AB_0)

lemma weekend_AB_nonempty: "heap_AB (interns weekend_AB) \<noteq> []"
  by (simp add: weekend_AB_fields heap_AB_0)

lemma weekend_AB_names: "distinct (map sanitize (heap_AB (interns weekend_AB)))"
  by (simp add: weekend_AB_fields heap_AB_0 sanitize_def)

lemma weekend_AB_dates: "distinct (dates weekend_AB)"
  by (simp add: weekend_AB_fields)

lemma wd_BA: "weekend_distribution weekend_AB [''A'', ''B''] [''B'', ''A'']
     = Some (Inr (map_of [(''A'', (0, 1)), (''B'', (1, 0))]))"
  unfolding weekend_AB_def by (rule wd_weekend_BA)

lemma model_AB:
  "solve_model False (1 # g) heap_AB weekend_AB =
     Some (Inr (problem_of weekend_AB [''A'', ''B''] (map_of [(''A'', (1, 0)), (''B'', (0, 1))]),
                map_of [(''A'', (1, 0)), (''B'', (0, 1))]), heap_AB, g)"
  using solve_model_result [where h = heap_AB and self = weekend_AB and randomize = False
      and g = "1 # g"] weekend_AB_keys weekend_AB_nonempty weekend_AB_names weekend_AB_dates
  by (simp add: heap_after_AB_False rng_after_AB_False weekend_AB_fields heap_AB_0 shuffle_AB_Suc0 wd_AB)

lemma model_BA:
  "solve_model False (0 # g) heap_AB weekend_AB =
     Some (Inr (problem_of weekend_AB [''A'', ''B''] (map_of [(''A'', (0, 1)), (''B'', (1, 0))]),
                map_of [(''A'', (0, 1)), (''B'', (1, 0))]), heap_AB, g)"
  using solve_model_result [where h = heap_AB and self = weekend_AB and randomize = False
      and g = "0 # g"] weekend_AB_keys weekend_AB_nonempty weekend_AB_names weekend_AB_dates
  by (simp add: heap_after_AB_False rng_after_AB_False weekend_AB_fields heap_AB_0 shuffle_AB_0 wd_BA)

lemma run_AB:
  "\<exists>sched metrics.
     solve solver False [1] heap_AB weekend_AB =
       Some (Inr (weekend_AB\<lparr> schedule := Some sched, intern_metrics := Some metrics \<rparr>), heap_AB, [])
     \<and> sched 738891 = Some (on_duty (solver
           (problem_of weekend_AB [''A'', ''B''] (map_of [(''A'', (1, 0)), (''B'', (0, 1))])))
           [''A'', ''B''] 738891)
     \<and> sched 738892 = Some (on_duty (solver
           (problem_of weekend_AB [''A'', ''B''] (map_of [(''A'', (1, 0)), (''B'', (0, 1))])))
           [''A'', ''B''] 738892)"
proof -
  have dd: "distinct (dates weekend_AB)" by (simp add: weekend_AB_fields)
  from solve_body_result [OF model_AB [of "[]"] dd, where solver = solver]
  obtain sched metrics where
    b: "solve_body solver False [1] heap_AB weekend_AB =
          Some (Inr (weekend_AB\<lparr> schedule := Some sched, intern_metrics := Some metrics \<rparr>), heap_AB, [])"
    and sc: "\<forall>d \<in> set (dates weekend_AB). sched d = Some (on_duty (solver
           (problem_of weekend_AB [''A'', ''B''] (map_of [(''A'', (1, 0)), (''B'', (0, 1))])))
           (heap_AB (interns weekend_AB)) d)"
    by blast
  have "sched 738891 = Some (on_duty (solver
           (problem_of weekend_AB [''A'', ''B''] (map_of [(''A'', (1, 0)), (''B'', (0, 1))])))
           [''A'', ''B''] 738891)"
    "sched 738892 = Some (on_duty (solver
           (problem_of weekend_AB [''A'', ''B''] (map_of [(''A'', (1, 0)), (''B'', (0, 1))])))
           [''A'', ''B''] 738892)"
    using sc by (simp_all add: weekend_AB_fields heap_AB_0)
  then show ?thesis unfolding weekend_AB_verify using b by blast
qed

subsection \<open>The two-day example\<close>

lemma two_days: "generate_dates 738886 738887 = [738886, 738887]"
  by (simp add: generate_dates_def upto.simps)

lemma two_days_A_fields:
  "dates two_days_A = [738886, 738887]"
  "interns two_days_A = 0"
  "units_per_intern two_days_A = [(''A'', 2)]"
  "min_interns_per_duty two_days_A = 1"
  "minimum_spacing two_days_A = 1"
  "start_date two_days_A = 738886"
  "end_date two_days_A = 738887"
  by (simp_all add: two_days_A_def init_def two_days)

lemma heap_A_0: "heap_A 0 = [''A'']"
  by (simp add: heap_A_def)

lemma heap_after_A: "heap_after randomize g heap_A two_days_A = heap_A"
  by (simp add: heap_after_def two_days_A_fields heap_A_0 shuffle_def fun_eq_iff)

lemma rng_after_A: "rng_after randomize g heap_A two_days_A = g"
  by (simp add: rng_after_def two_days_A_fields heap_A_0 shuffle_def)

lemma two_days_A_verify:
  "verify_units two_days_A (calculate_total_required_units two_days_A) = Inr ()"
proof -
  have "calculate_total_required_units two_days_A = 2"
    by (simp add: calculate_total_required_units_def two_days_A_fields weekday_def)
  then show ?thesis by (simp add: verify_units_def two_days_A_fields)
qed

lemma two_days_A_infeasible: "\<not> feasible (problem_of two_days_A [''A''] wd) v"
proof
  assume f: "feasible (problem_of two_days_A [''A''] wd) v"
  have c1: "(Min_Interns_on 738886, Constraint [((''A'', 738886), 1)] Ge 1) \<in> set (constraints (problem_of two_days_A [''A''] wd))"
    by (simp add: problem_of_def two_days_A_fields coverage_constraints_def)
  have c2: "(Min_Interns_on 738887, Constraint [((''A'', 738887), 1)] Ge 1) \<in> set (constraints (problem_of two_days_A [''A''] wd))"
    by (simp add: problem_of_def two_days_A_fields coverage_constraints_def)
  have "(Min_Spacing_Shifts (sanitize ''A'') ([738886, 738887] ! 0) ([738886, 738887] ! 1),
         Constraint [((''A'', [738886, 738887] ! 0), 1), ((''A'', [738886, 738887] ! 1), 1)] Le 1)
          \<in> set (spacing_constraints [''A''] [738886, 738887] 1)"
    by (rule spacing_constraint_mem) simp_all
  then have c3: "(Min_Spacing_Shifts (sanitize ''A'') 738886 738887,
                  Constraint [((''A'', 738886), 1), ((''A'', 738887), 1)] Le 1)
          \<in> set (constraints (problem_of two_days_A [''A''] wd))"
    by (simp add: problem_of_def two_days_A_fields)
  from feasible_holds [OF f c1] have "1 \<le> var_value v (''A'', 738886)" by (simp add: lp_value_def)
  moreover from feasible_holds [OF f c2] have "1 \<le> var_value v (''A'', 738887)"
    by (simp add: lp_value_def)
  moreover from feasible_holds [OF f c3] have
    "var_value v (''A'', 738886) + var_value v (''A'', 738887) \<le> 1" by (simp add: lp_value_def)
  ultimately show False by simp
qed

lemma run_two_days_A:
  "\<exists>wd sched metrics.
     solve_model randomize g heap_A two_days_A = Some (Inr (problem_of two_days_A [''A''] wd, wd), heap_A, g)
     \<and> solve solver randomize g heap_A two_days_A =
         Some (Inr (two_days_A\<lparr> schedule := Some sched, intern_metrics := Some metrics \<rparr>), heap_A, g)
     \<and> sched 738886 = Some (on_duty (solver (problem_of two_days_A [''A''] wd)) [''A''] 738886)
     \<and> sched 738887 = Some (on_duty (solver (problem_of two_days_A [''A''] wd)) [''A''] 738887)"
proof -
  have ne: "heap_A (interns two_days_A) \<noteq> []" by (simp add: two_days_A_fields heap_A_0)
  have keys: "set (heap_A (interns two_days_A)) \<subseteq> fst ` set (units_per_intern two_days_A)"
    by (simp add: two_days_A_fields heap_A_0)
  have dd: "distinct (dates two_days_A)" by (simp add: two_days_A_fields)
  have dn: "distinct (map sanitize (heap_A (interns two_days_A)))"
    by (simp add: two_days_A_fields heap_A_0)
  from solve_model_result [where h = heap_A and self = two_days_A and randomize = randomize
      and g = g] ne keys dn dd
  obtain wd where m: "solve_model randomize g heap_A two_days_A =
      Some (Inr (problem_of two_days_A [''A''] wd, wd), heap_A, g)"
    by (auto simp: heap_after_A rng_after_A heap_A_0 two_days_A_fields)
  from solve_body_result [OF m dd, where solver = solver] obtain sched metrics where
    b: "solve_body solver randomize g heap_A two_days_A =
          Some (Inr (two_days_A\<lparr> schedule := Some sched, intern_metrics := Some metrics \<rparr>), heap_A, g)"
    and sc: "\<forall>d \<in> set (dates two_days_A). sched d =
               Some (on_duty (solver (problem_of two_days_A [''A''] wd)) (heap_A (interns two_days_A)) d)"
    by blast
  have s: "solve solver randomize g heap_A two_days_A = solve_body solver randomize g heap_A two_days_A"
    using two_days_A_verify by (simp add: solve_def)
  have "sched 738886 = Some (on_duty (solver (problem_of two_days_A [''A''] wd)) [''A''] 738886)"
    "sched 738887 = Some (on_duty (solver (problem_of two_days_A [''A''] wd)) [''A''] 738887)"
    using sc by (simp_all add: two_days_A_fields heap_A_0)
  with m b s show ?thesis by metis
qed


subsection \<open>Two persons with one constraint name\<close>

lemma two_days_collide_fields:
  "dates two_days_collide = [738886, 738887]"
  "interns two_days_collide = 0"
  "units_per_intern two_days_collide = [(''A B'', 1), (''A_B'', 1)]"
  "min_interns_per_duty two_days_collide = 1"
  "minimum_spacing two_days_collide = 1"
  by (simp_all add: two_days_collide_def init_def two_days)

lemma heap_collide_0: "heap_collide 0 = [''A B'', ''A_B'']"
  by (simp add: heap_collide_def)

lemma collide_names: "sanitize ''A B'' = ''A_B''" "sanitize ''A_B'' = ''A_B''"
  by (simp_all add: sanitize_def)

lemma two_days_collide_verify:
  "verify_units two_days_collide (calculate_total_required_units two_days_collide) = Inr ()"
proof -
  have "calculate_total_required_units two_days_collide = 2"
    by (simp add: calculate_total_required_units_def two_days_collide_fields weekday_def)
  then show ?thesis by (simp add: verify_units_def two_days_collide_fields)
qed

lemma build_collide:
  "build_problem two_days_collide [''A B'', ''A_B''] sh = Some (Inl PulpError)"
proof -
  let ?cov = "coverage_constraints [''A B'', ''A_B''] [738886, 738887] 1"
  have c: "add_constraints [] ?cov = Inr ?cov"
    by (simp add: coverage_constraints_def add_constraint_def)
  have f: "fst ` set ?cov = {Min_Interns_on 738886, Min_Interns_on 738887}"
    by (simp add: coverage_constraints_def)
  have q: "quota_constraints [(''A B'', 1), (''A_B'', 1)] [738886, 738887] [''A B'', ''A_B''] ?cov
             = Inl PulpError"
    by (simp add: add_constraint_def collide_names f)
  show ?thesis
    by (simp add: build_problem_def two_days_collide_fields c q del: quota_constraints.simps)
qed

lemma run_collide:
  "solve solver False [1] heap_collide two_days_collide = Some (Inl PulpError, heap_collide, [])"
proof -
  have s: "shuffle [''A B'', ''A_B''] [Suc 0] = ([''A B'', ''A_B''], [])"
    by (simp add: shuffle_def)
  have m: "solve_model False [1] heap_collide two_days_collide
             = Some (Inl PulpError, heap_collide, [])"
    by (simp add: solve_model_def two_days_collide_fields heap_collide_0 s build_collide)
  then have "solve_body solver False [1] heap_collide two_days_collide
             = Some (Inl PulpError, heap_collide, [])"
    by (simp add: solve_body_def)
  with two_days_collide_verify show ?thesis by (simp add: solve_def)
qed
section \<open>The claims\<close>

text \<open>
  Claim C7. The unit weight of a date is 1 from Monday to Friday (weekday 0 to 4), 2 on a
  Saturday (weekday 5) and 3 on a Sunday (weekday 6), a weekday is always one of these seven
  numbers, and the total the loop of \<^verbatim>\<open>calculate_total_required_units\<close> accumulates is the
  sum of the unit weights of the dates of the horizon.
\<close>

theorem unit_weights:
  "(weekday d \<in> {0, 1, 2, 3, 4} \<longrightarrow> get_units_for_day d = 1)
   \<and> (weekday d = 5 \<longrightarrow> get_units_for_day d = 2)
   \<and> (weekday d = 6 \<longrightarrow> get_units_for_day d = 3)
   \<and> weekday d \<in> {0, 1, 2, 3, 4, 5, 6}
   \<and> calculate_total_required_units self = sum_list (map get_units_for_day (dates self))"
proof -
  have r: "0 \<le> weekday d \<and> weekday d \<le> 6" by (rule weekday_range)
  have "weekday d \<in> {0, 1, 2, 3, 4, 5, 6}" using r by auto
  moreover have "calculate_total_required_units self = sum_list (map get_units_for_day (dates self))"
    by (simp add: calculate_total_required_units_def total_units_loop_sum)
  ultimately show ?thesis by (auto simp: get_units_for_day_def)
qed

theorem unit_weights_witness:
  "get_units_for_day 738886 = 1 \<and> get_units_for_day 738891 = 2 \<and> get_units_for_day 738892 = 3
   \<and> calculate_total_required_units (init 738886 738892 0 [] 1 1) = 10"
  using unit_weights [of 738886 "init 738886 738892 0 [] 1 1"]
        unit_weights [of 738891 "init 738886 738892 0 [] 1 1"]
        unit_weights [of 738892 "init 738886 738892 0 [] 1 1"]
  by (simp add: weekday_def dates_init generate_dates_def week_2024 get_units_for_day_def)

text \<open>
  Claim C4. With \<open>T\<close> the total of the required units, \<open>M\<close> the minimum of interns per duty
  and \<open>U\<close> the sum of the quotas: when \<open>U < T\<close>, \<^verbatim>\<open>solve\<close> raises the first
  \<^verbatim>\<open>ValueError\<close>; otherwise, when \<open>U < T * M\<close>, it raises the second one; in both cases
  the heap and the generator are untouched and the solver plays no part, so nothing of the
  model has been built. Otherwise \<^verbatim>\<open>solve\<close> goes on with the shuffles and the
  construction of the model.
\<close>

theorem verify_units_first:
  "(sum_list (map snd (units_per_intern self)) < calculate_total_required_units self \<longrightarrow>
      solve solver randomize g h self =
        Some (Inl (ValueError (Insufficient_units (sum_list (map snd (units_per_intern self)))
                                 (calculate_total_required_units self))), h, g))
   \<and> (\<not> sum_list (map snd (units_per_intern self)) < calculate_total_required_units self
      \<and> sum_list (map snd (units_per_intern self))
          < calculate_total_required_units self * min_interns_per_duty self \<longrightarrow>
      solve solver randomize g h self =
        Some (Inl (ValueError (Insufficient_min_interns (sum_list (map snd (units_per_intern self)))
                                 (min_interns_per_duty self)
                                 (calculate_total_required_units self * min_interns_per_duty self))),
              h, g))
   \<and> (\<not> sum_list (map snd (units_per_intern self)) < calculate_total_required_units self
      \<and> \<not> sum_list (map snd (units_per_intern self))
          < calculate_total_required_units self * min_interns_per_duty self \<longrightarrow>
      solve solver randomize g h self = solve_body solver randomize g h self)"
  by (simp add: solve_def verify_units_def Let_def)

theorem verify_units_first_witness:
  "solve no_values True [] empty_heap (init 738886 738886 0 [] 1 1)
     = Some (Inl (ValueError (Insufficient_units 0 1)), empty_heap, [])
   \<and> solve no_values True [] empty_heap (init 738886 738886 0 [(''A'', 1)] 2 1)
     = Some (Inl (ValueError (Insufficient_min_interns 1 2 2)), empty_heap, [])
   \<and> solve no_values True [] empty_heap (init 738886 738886 0 [(''A'', 1)] 1 1)
     = solve_body no_values True [] empty_heap (init 738886 738886 0 [(''A'', 1)] 1 1)"
proof -
  have t: "calculate_total_required_units (init 738886 738886 0 u m sp) = 1" for u m sp
    by (simp add: total_init get_units_for_day_def weekday_def)
  show ?thesis
    using verify_units_first [of "init 738886 738886 0 [] 1 1" no_values True "[]" empty_heap]
      verify_units_first [of "init 738886 738886 0 [(''A'', 1)] 2 1" no_values True "[]" empty_heap]
      verify_units_first [of "init 738886 738886 0 [(''A'', 1)] 1 1" no_values True "[]" empty_heap]
    by (simp add: t) (simp add: init_def)
qed

text \<open>
  Claim C8, as amended. The feasibility check sums the quota dictionary, not the list of
  interns. With an empty list of interns, an empty quota dictionary and a horizon of at
  least one day, the total of the required units is positive and \<^verbatim>\<open>solve\<close> raises the
  first \<^verbatim>\<open>ValueError\<close> of the check, with the heap and the generator untouched.
\<close>

theorem empty_interns_rejected:
  assumes "h (interns self) = []"
    and "units_per_intern self = []"
    and "dates self = generate_dates s e"
    and "s \<le> e"
  shows "0 < calculate_total_required_units self
         \<and> solve solver randomize g h self =
             Some (Inl (ValueError (Insufficient_units 0 (calculate_total_required_units self))), h, g)"
proof -
  have pos: "0 < calculate_total_required_units self"
    using assms(3,4) by (rule total_positive)
  then show ?thesis
    using assms(2) by (simp add: solve_def verify_units_def Let_def)
qed

theorem empty_interns_rejected_witness:
  "empty_heap (interns (init 738886 738892 0 [] 1 1)) = []
   \<and> units_per_intern (init 738886 738892 0 [] 1 1) = []
   \<and> dates (init 738886 738892 0 [] 1 1) = generate_dates 738886 738892
   \<and> (738886 :: int) \<le> 738892
   \<and> solve no_values True [] empty_heap (init 738886 738892 0 [] 1 1)
       = Some (Inl (ValueError (Insufficient_units 0 10)), empty_heap, [])"
proof -
  have h1: "empty_heap (interns (init 738886 738892 0 [] 1 1)) = []" by (simp add: empty_heap_def)
  have h2: "units_per_intern (init 738886 738892 0 [] 1 1) = []" by (simp add: init_def)
  have h3: "dates (init 738886 738892 0 [] 1 1) = generate_dates 738886 738892" by (rule dates_init)
  have h4: "(738886 :: int) \<le> 738892" by simp
  have t: "calculate_total_required_units (init 738886 738892 0 [] 1 1) = 10"
    by (simp add: total_init week_2024 get_units_for_day_def weekday_def)
  show ?thesis
    using empty_interns_rejected [where h = empty_heap and self = "init 738886 738892 0 [] 1 1"
        and s = 738886 and e = 738892 and solver = no_values and randomize = True and g = "[]"]
      h1 h2 h3 h4
    by (simp add: t)
qed

text \<open>
  Claim C8 as stated fails when the quota dictionary has entries for persons that are not
  in the (empty) list: on one Monday with the quota 5 for \<^verbatim>\<open>"A"\<close> the check passes and
  \<^verbatim>\<open>solve\<close> raises \<^verbatim>\<open>ZeroDivisionError\<close> where the expected numbers are computed.
\<close>

theorem empty_interns_zero_division:
  "empty_heap (interns (init 738886 738886 0 [(''A'', 5)] 1 1)) = []
   \<and> verify_units (init 738886 738886 0 [(''A'', 5)] 1 1)
        (calculate_total_required_units (init 738886 738886 0 [(''A'', 5)] 1 1)) = Inr ()
   \<and> solve no_values True [] empty_heap (init 738886 738886 0 [(''A'', 5)] 1 1)
        = Some (Inl ZeroDivisionError, empty_heap, [])"
proof -
  have t: "calculate_total_required_units (init 738886 738886 0 [(''A'', 5)] 1 1) = 1"
    by (simp add: total_init get_units_for_day_def weekday_def)
  have v: "verify_units (init 738886 738886 0 [(''A'', 5)] 1 1) 1 = Inr ()"
    by (simp add: verify_units_def init_def)
  have i: "interns (init 738886 738886 0 [(''A'', 5)] 1 1) = 0" by (simp add: init_def)
  have e0: "empty_heap 0 = []" by (simp add: empty_heap_def)
  have b: "build_problem (init 738886 738886 0 [(''A'', 5)] 1 1) [] [] = Some (Inl ZeroDivisionError)"
    by (simp add: build_problem_def weekend_distribution_def coverage_constraints_def
        add_constraint_def init_def generate_dates_def upto.simps)
  have "solve_body no_values True [] empty_heap (init 738886 738886 0 [(''A'', 5)] 1 1)
          = Some (Inl ZeroDivisionError, empty_heap, [])"
    by (simp add: solve_body_def solve_model_def i shuffle_def e0 b empty_heap_upd)
  then show ?thesis
    by (simp add: solve_def t v i e0)
qed

text \<open>
  Claim C5. For a non-empty list of interns with pairwise distinct identifiers and any
  shuffled copy of it, the pre-distribution returns targets, and the Saturday targets of
  any two interns differ by at most 1, and so do their Sunday targets.
\<close>

theorem weekend_targets_within_one:
  assumes "ins \<noteq> []" and "distinct ins" and "mset shuffled_interns = mset ins"
  shows "\<exists>wd. weekend_distribution self ins shuffled_interns = Some (Inr wd)
          \<and> (\<forall>i \<in> set ins. \<forall>j \<in> set ins.
                \<exists>sat_i sun_i sat_j sun_j. wd i = Some (sat_i, sun_i) \<and> wd j = Some (sat_j, sun_j)
                  \<and> \<bar>sat_i - sat_j\<bar> \<le> 1 \<and> \<bar>sun_i - sun_j\<bar> \<le> 1)"
proof -
  from weekend_distribution_bounds [OF assms, of self] obtain wd where
    r: "weekend_distribution self ins shuffled_interns = Some (Inr wd)" and
    b: "\<forall>i \<in> set ins. \<exists>a b. wd i = Some (a, b)
                \<and> fst (baseline self ins) \<le> a \<and> a \<le> fst (baseline self ins) + 1
                \<and> snd (baseline self ins) \<le> b \<and> b \<le> snd (baseline self ins) + 1" by blast
  have "\<exists>sat_i sun_i sat_j sun_j. wd i = Some (sat_i, sun_i) \<and> wd j = Some (sat_j, sun_j)
                  \<and> \<bar>sat_i - sat_j\<bar> \<le> 1 \<and> \<bar>sun_i - sun_j\<bar> \<le> 1"
    if "i \<in> set ins" and "j \<in> set ins" for i j
  proof -
    from b that(1) obtain a1 b1 where
      i: "wd i = Some (a1, b1)" "fst (baseline self ins) \<le> a1" "a1 \<le> fst (baseline self ins) + 1"
         "snd (baseline self ins) \<le> b1" "b1 \<le> snd (baseline self ins) + 1" by blast
    from b that(2) obtain a2 b2 where
      j: "wd j = Some (a2, b2)" "fst (baseline self ins) \<le> a2" "a2 \<le> fst (baseline self ins) + 1"
         "snd (baseline self ins) \<le> b2" "b2 \<le> snd (baseline self ins) + 1" by blast
    have "\<bar>a1 - a2\<bar> \<le> 1" using i(2,3) j(2,3) by linarith
    moreover have "\<bar>b1 - b2\<bar> \<le> 1" using i(4,5) j(4,5) by linarith
    ultimately show ?thesis using i(1) j(1) by simp
  qed
  with r show ?thesis by blast
qed

theorem weekend_targets_within_one_witness:
  "[''A'', ''B''] \<noteq> [] \<and> distinct [''A'', ''B''] \<and> mset [''B'', ''A''] = mset [''A'', ''B'']
   \<and> (\<exists>wd. weekend_distribution (init 738891 738892 0 [(''A'', 2), (''B'', 3)] 1 1)
               [''A'', ''B''] [''B'', ''A''] = Some (Inr wd)
          \<and> wd ''A'' = Some (0, 1) \<and> wd ''B'' = Some (1, 0)
          \<and> (\<exists>sat_i sun_i sat_j sun_j. wd ''A'' = Some (sat_i, sun_i) \<and> wd ''B'' = Some (sat_j, sun_j)
                \<and> \<bar>sat_i - sat_j\<bar> \<le> 1 \<and> \<bar>sun_i - sun_j\<bar> \<le> 1))"
proof -
  have h1: "[''A'', ''B''] \<noteq> []" by simp
  have h2: "distinct [''A'', ''B'']" by simp
  have h3: "mset [''B'', ''A''] = mset [''A'', ''B'']" by simp
  from weekend_targets_within_one [OF h1 h2 h3, of "init 738891 738892 0 [(''A'', 2), (''B'', 3)] 1 1"]
  show ?thesis unfolding wd_weekend_BA by simp
qed

text \<open>
  Claim C3 fails on the code: the loop runs only while both remainders are positive. With
  two interns, one Saturday and one intern per duty, the Saturday remainder is 1 and the
  Sunday remainder 0, the loop is not entered and the Saturday targets sum to 0, not to 1.
  With three interns, two Saturdays, two Sundays and one intern per duty, both remainders
  are 2: one pass gives two Saturday slots and one Sunday slot, the Saturday remainder is
  then 0 and the loop stops with a Sunday slot left, so the Sunday targets sum to 1, not
  to 2.
\<close>

theorem saturday_remainder_lost:
  "num_saturdays (init 738891 738891 0 [(''A'', 1), (''B'', 1)] 1 1)
     * min_interns_per_duty (init 738891 738891 0 [(''A'', 1), (''B'', 1)] 1 1) = 1
   \<and> (\<exists>wd. weekend_distribution (init 738891 738891 0 [(''A'', 1), (''B'', 1)] 1 1)
              [''A'', ''B''] [''B'', ''A''] = Some (Inr wd)
          \<and> wd ''A'' = Some (0, 0) \<and> wd ''B'' = Some (0, 0)
          \<and> saturday_target_sum wd [''A'', ''B''] = 0)
   \<and> num_sundays (init 738891 738899 0 [(''A'', 4), (''B'', 4), (''C'', 9)] 1 1)
     * min_interns_per_duty (init 738891 738899 0 [(''A'', 4), (''B'', 4), (''C'', 9)] 1 1) = 2
   \<and> (\<exists>wd. weekend_distribution (init 738891 738899 0 [(''A'', 4), (''B'', 4), (''C'', 9)] 1 1)
              [''A'', ''B'', ''C''] [''A'', ''B'', ''C''] = Some (Inr wd)
          \<and> wd ''A'' = Some (1, 0) \<and> wd ''B'' = Some (1, 0) \<and> wd ''C'' = Some (0, 1)
          \<and> sunday_target_sum wd [''A'', ''B'', ''C''] = 1)"
proof -
  have "num_saturdays (init 738891 738891 0 [(''A'', 1), (''B'', 1)] 1 1)
         * min_interns_per_duty (init 738891 738891 0 [(''A'', 1), (''B'', 1)] 1 1) = 1"
    by (simp add: num_saturdays_def init_def one_saturday weekday_def)
  moreover have "num_sundays (init 738891 738899 0 [(''A'', 4), (''B'', 4), (''C'', 9)] 1 1)
     * min_interns_per_duty (init 738891 738899 0 [(''A'', 4), (''B'', 4), (''C'', 9)] 1 1) = 2"
    by (simp add: num_sundays_def init_def nine_days weekday_def)
  ultimately show ?thesis
    by (simp add: wd_one_saturday wd_two_weekends saturday_target_sum_def sunday_target_sum_def)
qed

text \<open>
  Claim C1, as amended. \<^verbatim>\<open>solve\<close> returns a schedule whatever the solver reports, so the
  invariants need the solver to have found a solution. For a scheduler with the dates the
  constructor generates: when \<^verbatim>\<open>solve\<close> returns and the values the solver left in the
  variables solve the problem that was built (every variable 0 or 1, every constraint
  satisfied), the schedule has at least
  \<^verbatim>\<open>min_interns_per_duty\<close> persons on every date, the unit weights of every person's dates
  sum to that person's quota, every person's numbers of Saturdays and Sundays are the
  weekend targets of that run, and no person has two dates whose positions in the horizon
  differ by \<^verbatim>\<open>minimum_spacing\<close> or less.
\<close>

theorem feasible_schedule_invariants:
  assumes "solve solver randomize g h self = Some (Inr self', h', g')"
    and "solve_model randomize g h self = Some (Inr (prob, wd), h'', g'')"
    and "feasible prob (solver prob)"
    and "dates self = generate_dates (start_date self) (end_date self)"
  shows "\<exists>sched. schedule self' = Some sched
           \<and> coverage_ok sched (dates self) (min_interns_per_duty self)
           \<and> quota_ok sched (dates self) (units_per_intern self) (h' (interns self))
           \<and> weekend_ok sched (dates self) wd (h' (interns self))
           \<and> spacing_ok sched (dates self) (minimum_spacing self) (h' (interns self))"
proof -
  have dd: "distinct (dates self)" using assms(4) generate_dates_distinct by simp
  from solve_body_result [OF assms(2) dd, of solver] obtain sched metrics where
    b: "solve_body solver randomize g h self =
          Some (Inr (self\<lparr> schedule := Some sched, intern_metrics := Some metrics \<rparr>), h'', g'')"
    and sc: "\<forall>d \<in> set (dates self). sched d = Some (on_duty (solver prob) (h'' (interns self)) d)"
    by blast
  from solve_Inr [OF assms(1)] b have
    s': "self' = self\<lparr> schedule := Some sched, intern_metrics := Some metrics \<rparr>"
    and hh: "h'' = h'" by simp_all
  from solve_model_Inr [OF assms(2)] have
    "set (h'' (interns self)) \<subseteq> fst ` set (units_per_intern self)"
    and "set (h'' (interns self)) \<subseteq> dom wd"
    and "prob = problem_of self (h'' (interns self)) wd" by blast+
  then have
    keys: "set (h' (interns self)) \<subseteq> fst ` set (units_per_intern self)"
    and wk: "set (h' (interns self)) \<subseteq> dom wd"
    and p: "prob = problem_of self (h' (interns self)) wd" unfolding hh .
  have f: "feasible (problem_of self (h' (interns self)) wd) (solver prob)"
    using assms(3) p by simp
  have sc': "\<forall>d \<in> set (dates self). sched d = Some (on_duty (solver prob) (h' (interns self)) d)"
    using sc hh by simp
  have "coverage_ok sched (dates self) (min_interns_per_duty self)"
    using f sc' by (rule feasible_coverage)
  moreover have "quota_ok sched (dates self) (units_per_intern self) (h' (interns self))"
    using f keys sc' by (rule feasible_quota)
  moreover have "weekend_ok sched (dates self) wd (h' (interns self))"
    using f wk sc' by (rule feasible_weekend)
  moreover have "spacing_ok sched (dates self) (minimum_spacing self) (h' (interns self))"
    using f sc' by (rule feasible_spacing)
  ultimately show ?thesis using s' by simp
qed

theorem feasible_schedule_invariants_witness:
  "\<exists>self' sched.
     solve solver_A_sat_B_sun False [1] heap_AB weekend_AB = Some (Inr self', heap_AB, [])
     \<and> solve_model False [1] heap_AB weekend_AB =
         Some (Inr (problem_of weekend_AB [''A'', ''B''] (map_of [(''A'', (1, 0)), (''B'', (0, 1))]),
                    map_of [(''A'', (1, 0)), (''B'', (0, 1))]), heap_AB, [])
     \<and> feasible (problem_of weekend_AB [''A'', ''B''] (map_of [(''A'', (1, 0)), (''B'', (0, 1))]))
           (solver_A_sat_B_sun
             (problem_of weekend_AB [''A'', ''B''] (map_of [(''A'', (1, 0)), (''B'', (0, 1))])))
     \<and> dates weekend_AB = generate_dates (start_date weekend_AB) (end_date weekend_AB)
     \<and> schedule self' = Some sched
     \<and> sched 738891 = Some [''A''] \<and> sched 738892 = Some [''B'']
     \<and> coverage_ok sched (dates weekend_AB) (min_interns_per_duty weekend_AB)
     \<and> quota_ok sched (dates weekend_AB) (units_per_intern weekend_AB) (heap_AB (interns weekend_AB))
     \<and> weekend_ok sched (dates weekend_AB) (map_of [(''A'', (1, 0)), (''B'', (0, 1))])
           (heap_AB (interns weekend_AB))
     \<and> spacing_ok sched (dates weekend_AB) (minimum_spacing weekend_AB) (heap_AB (interns weekend_AB))"
proof -
  from run_AB [of solver_A_sat_B_sun] obtain sched metrics where
    r: "solve solver_A_sat_B_sun False [1] heap_AB weekend_AB =
       Some (Inr (weekend_AB\<lparr> schedule := Some sched, intern_metrics := Some metrics \<rparr>), heap_AB, [])"
    and s: "sched 738891 = Some [''A'']" "sched 738892 = Some [''B'']"
    by (auto simp: on_duty_def solver_A_sat_B_sun_def)
  have d: "dates weekend_AB = generate_dates (start_date weekend_AB) (end_date weekend_AB)"
    by (simp add: weekend_AB_def init_def)
  from feasible_schedule_invariants [OF r model_AB [of "[]"] feasible_AB d] s r
    model_AB [of "[]"] feasible_AB d
  show ?thesis by simp
qed

text \<open>
  Claim C1 as stated fails: on the two-day example the problem has no solution, and yet
  \<^verbatim>\<open>solve\<close> returns a schedule, for every solver; no schedule can have \<^verbatim>\<open>"A"\<close> on both days
  and respect the spacing, so coverage or spacing is violated.
\<close>

theorem infeasible_model_returns_schedule:
  "\<forall>solver. \<exists>self' sched.
     solve solver True [] heap_A two_days_A = Some (Inr self', heap_A, [])
     \<and> schedule self' = Some sched
     \<and> \<not> (coverage_ok sched (dates two_days_A) (min_interns_per_duty two_days_A)
           \<and> spacing_ok sched (dates two_days_A) (minimum_spacing two_days_A)
                (heap_A (interns two_days_A)))"
proof
  fix solver :: solver
  from run_two_days_A [of True "[]" solver] obtain wd sched metrics where
    r: "solve solver True [] heap_A two_days_A =
         Some (Inr (two_days_A\<lparr> schedule := Some sched, intern_metrics := Some metrics \<rparr>), heap_A, [])"
    and s1: "sched 738886 = Some (on_duty (solver (problem_of two_days_A [''A''] wd)) [''A''] 738886)"
    and s2: "sched 738887 = Some (on_duty (solver (problem_of two_days_A [''A''] wd)) [''A''] 738887)"
    by blast
  let ?v = "solver (problem_of two_days_A [''A''] wd)"
  have "\<not> (coverage_ok sched (dates two_days_A) (min_interns_per_duty two_days_A)
           \<and> spacing_ok sched (dates two_days_A) (minimum_spacing two_days_A)
                (heap_A (interns two_days_A)))"
  proof
    assume a: "coverage_ok sched (dates two_days_A) (min_interns_per_duty two_days_A)
           \<and> spacing_ok sched (dates two_days_A) (minimum_spacing two_days_A)
                (heap_A (interns two_days_A))"
    then have "1 \<le> int (length (on_duty ?v [''A''] 738886))" "1 \<le> int (length (on_duty ?v [''A''] 738887))"
      by (simp_all add: coverage_ok_def two_days_A_fields s1 s2)
    then have v1: "?v (''A'', 738886) = Some 1" and v2: "?v (''A'', 738887) = Some 1"
      by (simp_all add: on_duty_def split: if_splits)
    have p: "person_dates sched [738886, 738887] ''A'' = [738886, 738887]"
      by (simp add: person_dates_def s1 s2 on_duty_def v1 v2)
    from a have "spacing_ok sched [738886, 738887] 1 [''A'']"
      by (simp add: two_days_A_fields heap_A_0)
    then show False
      by (simp add: spacing_ok_def p upt_conv_Cons)
  qed
  with r show "\<exists>self' sched.
     solve solver True [] heap_A two_days_A = Some (Inr self', heap_A, [])
     \<and> schedule self' = Some sched
     \<and> \<not> (coverage_ok sched (dates two_days_A) (min_interns_per_duty two_days_A)
           \<and> spacing_ok sched (dates two_days_A) (minimum_spacing two_days_A)
                (heap_A (interns two_days_A)))"
    by simp
qed

text \<open>
  Claim C2, as amended. \<^verbatim>\<open>solve\<close> never looks at what the solver reports. Once the
  feasibility check has passed, for a non-empty list of interns that all have a quota and
  whose names stay pairwise different once the characters \<^verbatim>\<open>-+[] ->/\<close> are replaced by
  \<^verbatim>\<open>_\<close> (so that no two constraints get one name), \<^verbatim>\<open>solve\<close> builds the problem and
  returns normally with a schedule, for every solver: the schedule of a date lists the
  interns whose variable holds the value 1, whether or not these values solve the problem,
  and whether or not the problem has a solution at all.
\<close>

theorem solve_returns_whatever_the_solver_says:
  assumes "verify_units self (calculate_total_required_units self) = Inr ()"
    and "h (interns self) \<noteq> []"
    and "distinct (map sanitize (h (interns self)))"
    and "set (h (interns self)) \<subseteq> fst ` set (units_per_intern self)"
    and "dates self = generate_dates (start_date self) (end_date self)"
  shows "\<exists>prob wd sched metrics h' g'.
           solve_model randomize g h self = Some (Inr (prob, wd), h', g')
           \<and> solve solver randomize g h self =
               Some (Inr (self\<lparr> schedule := Some sched, intern_metrics := Some metrics \<rparr>), h', g')
           \<and> (\<forall>d \<in> set (dates self). sched d = Some (on_duty (solver prob) (h' (interns self)) d))"
proof -
  have dd: "distinct (dates self)" using assms(5) generate_dates_distinct by simp
  from solve_total [where h = h and self = self and randomize = randomize and g = g
      and solver = solver] assms(1,2,4) dd assms(3)
  show ?thesis by blast
qed

theorem solve_returns_whatever_the_solver_says_witness:
  "verify_units two_days_A (calculate_total_required_units two_days_A) = Inr ()
   \<and> heap_A (interns two_days_A) \<noteq> []
   \<and> distinct (map sanitize (heap_A (interns two_days_A)))
   \<and> set (heap_A (interns two_days_A)) \<subseteq> fst ` set (units_per_intern two_days_A)
   \<and> dates two_days_A = generate_dates (start_date two_days_A) (end_date two_days_A)
   \<and> (\<exists>prob wd sched metrics.
         solve_model False [] heap_A two_days_A = Some (Inr (prob, wd), heap_A, [])
         \<and> \<not> feasible prob (all_ones prob)
         \<and> solve all_ones False [] heap_A two_days_A =
             Some (Inr (two_days_A\<lparr> schedule := Some sched, intern_metrics := Some metrics \<rparr>),
                   heap_A, [])
         \<and> sched 738886 = Some [''A''] \<and> sched 738887 = Some [''A''])"
proof -
  have h1: "verify_units two_days_A (calculate_total_required_units two_days_A) = Inr ()"
    by (rule two_days_A_verify)
  have h2: "heap_A (interns two_days_A) \<noteq> []" by (simp add: two_days_A_fields heap_A_0)
  have h3: "distinct (map sanitize (heap_A (interns two_days_A)))" by (simp add: two_days_A_fields heap_A_0)
  have h4: "set (heap_A (interns two_days_A)) \<subseteq> fst ` set (units_per_intern two_days_A)"
    by (simp add: two_days_A_fields heap_A_0)
  have h5: "dates two_days_A = generate_dates (start_date two_days_A) (end_date two_days_A)"
    by (simp add: two_days_A_def init_def)
  from solve_returns_whatever_the_solver_says [where h = heap_A and self = two_days_A
      and randomize = False and g = "[]" and solver = all_ones] h1 h2 h3 h4 h5
  obtain prob wd sched metrics h' g' where
    m: "solve_model False [] heap_A two_days_A = Some (Inr (prob, wd), h', g')"
    and r: "solve all_ones False [] heap_A two_days_A =
               Some (Inr (two_days_A\<lparr> schedule := Some sched, intern_metrics := Some metrics \<rparr>), h', g')"
    and sc: "\<forall>d \<in> set (dates two_days_A). sched d = Some (on_duty (all_ones prob) (h' (interns two_days_A)) d)"
    by blast
  from run_two_days_A [of False "[]" all_ones] m have
    hg: "h' = heap_A" "g' = []" and "\<exists>wd'. prob = problem_of two_days_A [''A''] wd'" by auto
  then have nf: "\<not> feasible prob (all_ones prob)" using two_days_A_infeasible by auto
  have "sched 738886 = Some [''A'']" "sched 738887 = Some [''A'']"
    using sc by (simp_all add: two_days_A_fields hg heap_A_0 on_duty_def all_ones_def)
  with m r nf hg h1 h2 h3 h4 h5 show ?thesis by blast
qed

text \<open>
  Claim C2 as stated fails: the problem of the two-day example admits no assignment, and
  \<^verbatim>\<open>solve\<close> returns normally; with a solver that leaves the variables unset, the schedule
  it returns is empty on both days.
\<close>

theorem infeasibility_not_reported:
  "(\<exists>prob wd. solve_model True [] heap_A two_days_A = Some (Inr (prob, wd), heap_A, [])
      \<and> (\<forall>v. \<not> feasible prob v))
   \<and> (\<exists>self' sched. solve no_values True [] heap_A two_days_A = Some (Inr self', heap_A, [])
      \<and> schedule self' = Some sched \<and> sched 738886 = Some [] \<and> sched 738887 = Some [])"
proof -
  from run_two_days_A [of True "[]" no_values] obtain wd sched metrics where
    m: "solve_model True [] heap_A two_days_A = Some (Inr (problem_of two_days_A [''A''] wd, wd), heap_A, [])"
    and r: "solve no_values True [] heap_A two_days_A =
         Some (Inr (two_days_A\<lparr> schedule := Some sched, intern_metrics := Some metrics \<rparr>), heap_A, [])"
    and s1: "sched 738886 = Some (on_duty (no_values (problem_of two_days_A [''A''] wd)) [''A''] 738886)"
    and s2: "sched 738887 = Some (on_duty (no_values (problem_of two_days_A [''A''] wd)) [''A''] 738887)"
    by blast
  have "sched 738886 = Some []" "sched 738887 = Some []"
    using s1 s2 by (simp_all add: on_duty_def no_values_def)
  with m r two_days_A_infeasible show ?thesis by simp
qed

text \<open>
  Claim C6. When \<^verbatim>\<open>solve\<close> returns, the metrics of every intern of the list satisfy:
  \<^verbatim>\<open>num_shifts\<close> is the number of dates the schedule gives the intern; with no such date
  \<^verbatim>\<open>average_spacing\<close> is \<open>None\<close>; otherwise it is the gap from the start of the horizon
  to the first shift, plus the gaps between consecutive shifts, plus the gap from the last
  shift to the end of the horizon, divided by \<^verbatim>\<open>num_shifts + 1\<close>. The quotient is the exact
  rational number that the source computes in floating point.
\<close>

theorem average_spacing_formula:
  assumes "solve solver randomize g h self = Some (Inr self', h', g')"
    and "dates self = generate_dates (start_date self) (end_date self)"
    and "i \<in> set (h' (interns self))"
  shows "\<exists>sched metrics m. schedule self' = Some sched \<and> intern_metrics self' = Some metrics
           \<and> metrics i = Some m
           \<and> num_shifts m = length (person_dates sched (dates self) i)
           \<and> average_spacing m =
               (if person_dates sched (dates self) i = [] then None
                else Some (of_int (sum_list (spec_gaps (start_date self) (end_date self)
                                              (person_dates sched (dates self) i)))
                           / of_int (int (num_shifts m) + 1)))"
proof -
  have dd: "distinct (dates self)" using assms(2) generate_dates_distinct by simp
  from solve_body_Inr [OF solve_Inr [OF assms(1)]] obtain prob wd where
    m: "solve_model randomize g h self = Some (Inr (prob, wd), h', g')" by blast
  from solve_body_result [OF m dd, of solver] obtain sched metrics where
    b: "solve_body solver randomize g h self =
          Some (Inr (self\<lparr> schedule := Some sched, intern_metrics := Some metrics \<rparr>), h', g')"
    and sc: "\<forall>d \<in> set (dates self). sched d = Some (on_duty (solver prob) (h' (interns self)) d)"
    and mt: "\<forall>i. metrics i = (if i \<in> set (h' (interns self))
                                  then Some (expected_metric (solver prob) (dates self) i) else None)"
    by blast
  from solve_Inr [OF assms(1)] b have
    s': "self' = self\<lparr> schedule := Some sched, intern_metrics := Some metrics \<rparr>" by simp
  let ?m = "expected_metric (solver prob) (dates self) i"
  have mi: "metrics i = Some ?m" using mt assms(3) by simp
  have pd: "person_dates sched (dates self) i = assigned_dates (solver prob) i (dates self)"
    using sc assms(3) by (rule person_dates_assigned)
  have n: "num_shifts ?m = length (person_dates sched (dates self) i)"
    by (simp add: expected_metric_def pd)
  have "average_spacing ?m = spec_average_spacing (start_date self) (end_date self)
                               (person_dates sched (dates self) i)"
    by (simp add: expected_metric_def pd spec_average_spacing_horizon [OF assms(2)])
  then have a: "average_spacing ?m =
               (if person_dates sched (dates self) i = [] then None
                else Some (of_int (sum_list (spec_gaps (start_date self) (end_date self)
                                              (person_dates sched (dates self) i)))
                           / of_int (int (num_shifts ?m) + 1)))"
    by (simp add: spec_average_spacing_def n)
  show ?thesis using s' mi n a by simp
qed

theorem average_spacing_formula_witness:
  "(\<exists>self' metrics m.
      solve solver_A_sat_B_sun False [1] heap_AB weekend_AB = Some (Inr self', heap_AB, [])
      \<and> dates weekend_AB = generate_dates (start_date weekend_AB) (end_date weekend_AB)
      \<and> ''A'' \<in> set (heap_AB (interns weekend_AB))
      \<and> intern_metrics self' = Some metrics \<and> metrics ''A'' = Some m
      \<and> num_shifts m = 1 \<and> average_spacing m = Some (1 / 2))
   \<and> (\<exists>self' metrics m.
      solve no_values False [1] heap_AB weekend_AB = Some (Inr self', heap_AB, [])
      \<and> intern_metrics self' = Some metrics \<and> metrics ''A'' = Some m
      \<and> num_shifts m = 0 \<and> average_spacing m = None)"
proof
  have d: "dates weekend_AB = generate_dates (start_date weekend_AB) (end_date weekend_AB)"
    by (simp add: weekend_AB_def init_def)
  have a: "''A'' \<in> set (heap_AB (interns weekend_AB))" by (simp add: weekend_AB_fields heap_AB_0)
  show "\<exists>self' metrics m.
      solve solver_A_sat_B_sun False [1] heap_AB weekend_AB = Some (Inr self', heap_AB, [])
      \<and> dates weekend_AB = generate_dates (start_date weekend_AB) (end_date weekend_AB)
      \<and> ''A'' \<in> set (heap_AB (interns weekend_AB))
      \<and> intern_metrics self' = Some metrics \<and> metrics ''A'' = Some m
      \<and> num_shifts m = 1 \<and> average_spacing m = Some (1 / 2)"
  proof -
    from run_AB [of solver_A_sat_B_sun] obtain sched metrics where
      r: "solve solver_A_sat_B_sun False [1] heap_AB weekend_AB =
         Some (Inr (weekend_AB\<lparr> schedule := Some sched, intern_metrics := Some metrics \<rparr>), heap_AB, [])"
      and s: "sched 738891 = Some [''A'']" "sched 738892 = Some [''B'']"
      by (auto simp: on_duty_def solver_A_sat_B_sun_def)
    have p: "person_dates sched (dates weekend_AB) ''A'' = [738891]"
      by (simp add: person_dates_def weekend_AB_fields s)
    have sg: "spec_gaps 738891 738892 [738891] = [0, 1]" by (simp add: spec_gaps_def)
    from average_spacing_formula [OF r d a] obtain m where
      m: "metrics ''A'' = Some m"
      and n: "num_shifts m = length (person_dates sched (dates weekend_AB) ''A'')"
      and v: "average_spacing m =
               (if person_dates sched (dates weekend_AB) ''A'' = [] then None
                else Some (of_int (sum_list (spec_gaps (start_date weekend_AB) (end_date weekend_AB)
                                              (person_dates sched (dates weekend_AB) ''A'')))
                           / of_int (int (num_shifts m) + 1)))"
      by auto
    have n1: "num_shifts m = 1" using n unfolding p by simp
    have "average_spacing m = Some (1 / 2)"
      using v unfolding p n1 by (simp add: weekend_AB_fields sg)
    with r d a m n1 show ?thesis by simp
  qed
  show "\<exists>self' metrics m.
      solve no_values False [1] heap_AB weekend_AB = Some (Inr self', heap_AB, [])
      \<and> intern_metrics self' = Some metrics \<and> metrics ''A'' = Some m
      \<and> num_shifts m = 0 \<and> average_spacing m = None"
  proof -
    from run_AB [of no_values] obtain sched metrics where
      r: "solve no_values False [1] heap_AB weekend_AB =
         Some (Inr (weekend_AB\<lparr> schedule := Some sched, intern_metrics := Some metrics \<rparr>), heap_AB, [])"
      and s: "sched 738891 = Some []" "sched 738892 = Some []"
      by (auto simp: on_duty_def no_values_def)
    have p: "person_dates sched (dates weekend_AB) ''A'' = []"
      by (simp add: person_dates_def weekend_AB_fields s)
    from average_spacing_formula [OF r d a] obtain m where
      m: "metrics ''A'' = Some m"
      and n: "num_shifts m = length (person_dates sched (dates weekend_AB) ''A'')"
      and v: "average_spacing m =
               (if person_dates sched (dates weekend_AB) ''A'' = [] then None
                else Some (of_int (sum_list (spec_gaps (start_date weekend_AB) (end_date weekend_AB)
                                              (person_dates sched (dates weekend_AB) ''A'')))
                           / of_int (int (num_shifts m) + 1)))"
      by auto
    have "num_shifts m = 0" using n unfolding p by simp
    moreover have "average_spacing m = None" using v unfolding p by simp
    ultimately show ?thesis using r m by simp
  qed
qed

text \<open>
  Claim C10. The copy of the list that orders the remainder slots is shuffled whether or
  not \<^verbatim>\<open>randomize\<close> is set. On the weekend example both remainders are 1, and two runs
  with \<^verbatim>\<open>randomize=False\<close> on the same heap and the same scheduler that differ only in
  the draw of the generator build different weekend targets: \<^verbatim>\<open>"A"\<close> gets the Saturday
  and \<^verbatim>\<open>"B"\<close> the Sunday in one run, the other way round in the other.
\<close>

theorem weekend_targets_depend_on_global_randomness:
  "\<exists>prob1 wd1 prob2 wd2.
     solve_model False [1] heap_AB weekend_AB = Some (Inr (prob1, wd1), heap_AB, [])
     \<and> solve_model False [0] heap_AB weekend_AB = Some (Inr (prob2, wd2), heap_AB, [])
     \<and> fst (remainders weekend_AB (heap_AB (interns weekend_AB))) = 1
     \<and> snd (remainders weekend_AB (heap_AB (interns weekend_AB))) = 1
     \<and> wd1 ''A'' = Some (1, 0) \<and> wd1 ''B'' = Some (0, 1)
     \<and> wd2 ''A'' = Some (0, 1) \<and> wd2 ''B'' = Some (1, 0)"
proof -
  have "remainders weekend_AB (heap_AB (interns weekend_AB)) = (1, 1)"
    by (simp add: remainders_def weekend_AB_fields heap_AB_0 weekday_def)
  then show ?thesis using model_AB [of "[]"] model_BA [of "[]"] by simp
qed

text \<open>
  Claim C9. The scheduler holds the address of the caller's list. When \<^verbatim>\<open>solve\<close> returns
  from a call with \<^verbatim>\<open>randomize=True\<close>, the scheduler still holds that address, the list at
  that address has the same elements with the same multiplicities as before the call, and
  no other list of the heap has changed; and the order can differ: on the weekend example
  the generator's draws 1 and 0 turn the caller's \<^verbatim>\<open>["A", "B"]\<close> into \<^verbatim>\<open>["B", "A"]\<close>.
\<close>

theorem randomize_permutes_callers_list:
  "(solve solver True g h self = Some (Inr self', h', g') \<longrightarrow>
      interns self' = interns self
      \<and> mset (h' (interns self)) = mset (h (interns self))
      \<and> (\<forall>a. a \<noteq> interns self \<longrightarrow> h' a = h a))
   \<and> (\<exists>self' h' g'.
         solve solver_A_sat_B_sun True [1, 0] heap_AB weekend_AB = Some (Inr self', h', g')
         \<and> heap_AB (interns weekend_AB) = [''A'', ''B'']
         \<and> h' (interns weekend_AB) = [''B'', ''A''])"
proof
  show "solve solver True g h self = Some (Inr self', h', g') \<longrightarrow>
      interns self' = interns self
      \<and> mset (h' (interns self)) = mset (h (interns self))
      \<and> (\<forall>a. a \<noteq> interns self \<longrightarrow> h' a = h a)"
  proof
    assume "solve solver True g h self = Some (Inr self', h', g')"
    from solve_heap [OF this] have "h' = heap_after True g h self" and "interns self' = interns self"
      by simp_all
    then show "interns self' = interns self
      \<and> mset (h' (interns self)) = mset (h (interns self))
      \<and> (\<forall>a. a \<noteq> interns self \<longrightarrow> h' a = h a)"
      by (simp add: heap_after_mset heap_after_frame)
  qed
next
  have dd: "distinct (dates weekend_AB)" by (simp add: weekend_AB_fields)
  from solve_model_result [where h = heap_AB and self = weekend_AB and randomize = True
      and g = "[1, 0]"] weekend_AB_keys weekend_AB_nonempty weekend_AB_names dd
  obtain prob wd where m: "solve_model True [1, 0] heap_AB weekend_AB =
      Some (Inr (prob, wd), heap_after True [1, 0] heap_AB weekend_AB,
            rng_after True [1, 0] heap_AB weekend_AB)"
    by blast
  from solve_body_result [OF m dd, where solver = solver_A_sat_B_sun] obtain self' where
    "solve_body solver_A_sat_B_sun True [1, 0] heap_AB weekend_AB =
          Some (Inr self', heap_after True [1, 0] heap_AB weekend_AB,
                rng_after True [1, 0] heap_AB weekend_AB)"
    by blast
  then have r: "solve solver_A_sat_B_sun True [1, 0] heap_AB weekend_AB =
          Some (Inr self', heap_after True [1, 0] heap_AB weekend_AB,
                rng_after True [1, 0] heap_AB weekend_AB)"
    by (simp only: weekend_AB_verify)
  have "heap_after True [1, 0] heap_AB weekend_AB (interns weekend_AB) = [''B'', ''A'']"
    using heap_after_AB_True [of "[]"] by (simp add: weekend_AB_fields)
  moreover have "heap_AB (interns weekend_AB) = [''A'', ''B'']"
    by (simp add: weekend_AB_fields heap_AB_0)
  ultimately show "\<exists>self' h' g'.
         solve solver_A_sat_B_sun True [1, 0] heap_AB weekend_AB = Some (Inr self', h', g')
         \<and> heap_AB (interns weekend_AB) = [''A'', ''B'']
         \<and> h' (interns weekend_AB) = [''B'', ''A'']"
    using r by blast
qed

theorem randomize_permutes_callers_list_witness:
  "\<exists>self' h' g'.
     solve solver_A_sat_B_sun True [1, 0] heap_AB weekend_AB = Some (Inr self', h', g')
     \<and> interns self' = interns weekend_AB
     \<and> h' (interns weekend_AB) = [''B'', ''A'']
     \<and> mset (h' (interns weekend_AB)) = mset [''A'', ''B'']"
proof -
  from randomize_permutes_callers_list [THEN conjunct2] obtain self' h' g' where
    r: "solve solver_A_sat_B_sun True [1, 0] heap_AB weekend_AB = Some (Inr self', h', g')"
    and a: "heap_AB (interns weekend_AB) = [''A'', ''B'']"
    and b: "h' (interns weekend_AB) = [''B'', ''A'']" by blast
  from randomize_permutes_callers_list [THEN conjunct1, of solver_A_sat_B_sun "[1, 0]" heap_AB
      weekend_AB self' h' g'] r a
  have "interns self' = interns weekend_AB"
    and "mset (h' (interns weekend_AB)) = mset [''A'', ''B'']" by simp_all
  with r b show ?thesis by blast
qed

end
